theory Spec2Isabelle
  imports Main "HOL-Library.Sublist"
begin

section \<open>JavaScript strings\<close>

text \<open>
  A JavaScript string is a sequence of UTF-16 code units. A code unit is modelled by its
  number, a string by the list of its code units. String literals of the source are
  written with \<open>js\<close>, which maps every (ASCII) character to its code.
\<close>

type_synonym jschar = nat
type_synonym jsstr = "jschar list"

definition js :: "string \<Rightarrow> jsstr" where
  "js s = map of_char s"

text \<open>
  \<open>WhiteSpace\<close> and \<open>LineTerminator\<close> of ECMAScript: the code units removed by
  \<open>String.prototype.trim\<close> (and matched by \<open>\s\<close>), and the ones the regular
  expression atom \<open>.\<close> refuses.
\<close>

definition isLineTerminator :: "jschar \<Rightarrow> bool" where
  "isLineTerminator c \<longleftrightarrow> c = 0x0A \<or> c = 0x0D \<or> c = 0x2028 \<or> c = 0x2029"

definition isWhiteSpace :: "jschar \<Rightarrow> bool" where
  "isWhiteSpace c \<longleftrightarrow>
     c = 0x09 \<or> c = 0x0B \<or> c = 0x0C \<or> c = 0x20 \<or> c = 0xA0 \<or> c = 0x1680 \<or>
     (0x2000 \<le> c \<and> c \<le> 0x200A) \<or> c = 0x202F \<or> c = 0x205F \<or> c = 0x3000 \<or>
     c = 0xFEFF \<or> isLineTerminator c"

text \<open>\<open>s.trim()\<close>: white space removed at both ends.\<close>

definition trim :: "jsstr \<Rightarrow> jsstr" where
  "trim s = rev (dropWhile isWhiteSpace (rev (dropWhile isWhiteSpace s)))"

text \<open>
  \<open>s.split('\n')\<close>: the pieces between line feeds; the result is never empty
  (\<open>''.split('\n')\<close> is \<open>['']\<close>).
\<close>

fun split_nl :: "jsstr \<Rightarrow> jsstr list" where
  "split_nl [] = [[]]"
| "split_nl (c # cs) =
     (if c = 0x0A then [] # split_nl cs
      else (c # hd (split_nl cs)) # tl (split_nl cs))"

text \<open>Decimal rendering of a non-negative integer, as a template literal inserts it.\<close>

function show_nat :: "nat \<Rightarrow> jsstr" where
  "show_nat n = (if n < 10 then [48 + n] else show_nat (n div 10) @ [48 + n mod 10])"
  by pat_completeness auto
termination
  by (relation "measure id") auto

declare show_nat.simps [simp del]

section \<open>Regular expressions of \<open>AIService\<close>\<close>

text \<open>
  \<open>String.prototype.match\<close> with a non-global regular expression tries the pattern at
  index 0, then 1, and so on up to the end of the input, and returns the first success.
  The matcher receives the input from the tried index on.
\<close>

fun regex_search :: "(jsstr \<Rightarrow> 'm option) \<Rightarrow> jsstr \<Rightarrow> 'm option" where
  "regex_search m [] = m []"
| "regex_search m (c # cs) =
     (case m (c # cs) of Some r \<Rightarrow> Some r | None \<Rightarrow> regex_search m cs)"

text \<open>
  The lazy group \<open>([\s\S]*?)\<close> followed by a literal: the group grows one code unit at
  a time until the literal matches. The result is the group and the input left after the
  literal.
\<close>

fun lazy_until :: "jsstr \<Rightarrow> jsstr \<Rightarrow> (jsstr \<times> jsstr) option" where
  "lazy_until lit [] = (if lit = [] then Some ([], []) else None)"
| "lazy_until lit (c # cs) =
     (if prefix lit (c # cs) then Some ([], drop (length lit) (c # cs))
      else map_option (\<lambda>(g, r). (c # g, r)) (lazy_until lit cs))"

text \<open>
  \<open>/```html([\s\S]*?)```/\<close> and \<open>/```text([\s\S]*?)```/\<close> at one index: the
  opening fence with its tag, the lazy group, the closing fence. The value is group 1.
\<close>

definition fence :: jsstr where
  "fence = js ''```''"

definition fenced_at :: "jsstr \<Rightarrow> jsstr \<Rightarrow> jsstr option" where
  "fenced_at tag s =
     (if prefix (fence @ tag) s
      then map_option fst (lazy_until fence (drop (length (fence @ tag)) s))
      else None)"

text \<open>
  \<open>/<div[^>]*class="architecture-diagram"[^>]*>([\s\S]*?)<\/div>/\<close> at one index.
  After \<open><div\<close> the first \<open>[^>]*\<close> can reach any point of the run of code units
  other than \<open>>\<close>; the class attribute has to lie in that run, the run has to be ended
  by \<open>>\<close>, and the lazy group ends at the first \<open></div>\<close>. The value is the whole
  matched text (\<open>match[0]\<close>).
\<close>

definition class_marker :: jsstr where
  \<open>class_marker = js ''class="architecture-diagram"''\<close>

definition diagram_div_at :: "jsstr \<Rightarrow> jsstr option" where
  "diagram_div_at s =
     (if prefix (js ''<div'') s then
        (let r = drop 4 s;
             attrs = takeWhile (\<lambda>c. c \<noteq> 0x3E) r;
             after = dropWhile (\<lambda>c. c \<noteq> 0x3E) r
         in if sublist class_marker attrs \<and> after \<noteq> [] then
              (case lazy_until (js ''</div>'') (tl after) of
                 None \<Rightarrow> None
               | Some (body, _) \<Rightarrow> Some (js ''<div'' @ attrs @ [0x3E] @ body @ js ''</div>''))
            else None)
      else None)"

text \<open>
  Case-insensitive comparison (flag \<open>i\<close>, no flag \<open>u\<close>) against an ASCII letter of
  the pattern: both sides are canonicalised to upper case, and a code unit from 128 on is
  never canonicalised to an ASCII one, so only the two ASCII cases of the letter match.
\<close>

definition canonicalize :: "jschar \<Rightarrow> jschar" where
  "canonicalize c = (if 97 \<le> c \<and> c \<le> 122 then c - 32 else c)"

definition heading_word :: jsstr where
  "heading_word = js ''Recommandation''"

text \<open>
  The lazy group before the lookahead \<open>(?=\n\n|$)\<close>: it grows until two line feeds
  follow or the input ends.
\<close>

fun lazy_until_blank :: "jsstr \<Rightarrow> jsstr" where
  "lazy_until_blank [] = []"
| "lazy_until_blank (c # cs) =
     (if prefix [0x0A, 0x0A] (c # cs) then [] else c # lazy_until_blank cs)"

text \<open>
  The word \<open>Recommandation\<close> of the pattern at one index, compared without regard to
  case. The value is the input left after the word.
\<close>

definition word_at :: "jsstr \<Rightarrow> jsstr option" where
  "word_at s =
     (if length heading_word \<le> length s \<and>
         map canonicalize (take (length heading_word) s) = map canonicalize heading_word
      then Some (drop (length heading_word) s)
      else None)"

text \<open>
  \<open>/Recommandations?.*([\s\S]*?)(?=\n\n|$)/i\<close> at one index: the word, an optional
  \<open>s\<close>, the greedy \<open>.*\<close> to the end of the line, then the lazy group. What follows
  the word always matches, so nothing backtracks. The value is group 1.
\<close>

definition heading_at :: "jsstr \<Rightarrow> jsstr option" where
  "heading_at s =
     (case word_at s of
        None \<Rightarrow> None
      | Some r1 \<Rightarrow>
          (let r2 = (case r1 of [] \<Rightarrow> r1
                     | c # r \<Rightarrow> if canonicalize c = canonicalize 115 then r else r1);
               r3 = dropWhile (\<lambda>c. \<not> isLineTerminator c) r2
           in Some (lazy_until_blank r3)))"

section \<open>Extraction from the model's text\<close>

text \<open>\<open>extractHtmlContent\<close>: \<open>null\<close> is \<open>None\<close>.\<close>

definition extractHtmlContent :: "jsstr \<Rightarrow> jsstr option" where
  "extractHtmlContent content =
     (case regex_search (fenced_at (js ''html'')) content of
        None \<Rightarrow> regex_search diagram_div_at content
      | Some g \<Rightarrow> Some (trim g))"

text \<open>
  \<open>extractTextSummary\<close>: \<open>match ? match[1].trim() : content.split('\n')[0] || "Technical summary"\<close>;
  the empty string is falsy.
\<close>

definition extractTextSummary :: "jsstr \<Rightarrow> jsstr" where
  "extractTextSummary content =
     (case regex_search (fenced_at (js ''text'')) content of
        Some g \<Rightarrow> trim g
      | None \<Rightarrow>
          (let first_line = hd (split_nl content)
           in if first_line = [] then js ''Technical summary'' else first_line))"

definition getDefaultRecommendations :: "jsstr list" where
  "getDefaultRecommendations =
     [js ''Documentation: Ajouter des commentaires pour les fonctions principales'',
      js ''Tests: Impl'' @ [0xE9] @ js ''menter des tests unitaires pour les modules critiques'',
      js ''Optimisation: Analyser les performances des composants cl'' @ [0xE9] @ js ''s'']"

text \<open>\<open>r.replace(/^- /, '')\<close>\<close>

definition strip_dash :: "jsstr \<Rightarrow> jsstr" where
  "strip_dash r = (if prefix (js ''- '') r then drop 2 r else r)"

definition extractRecommendations :: "jsstr \<Rightarrow> jsstr list" where
  "extractRecommendations content =
     (case regex_search heading_at content of
        Some g \<Rightarrow>
          take 3 (map (\<lambda>r. trim (strip_dash r))
                   (filter (\<lambda>r. length (trim r) > 0) (split_nl g)))
      | None \<Rightarrow> getDefaultRecommendations)"

section \<open>Diagram containers\<close>

definition wrapDiagram_open :: jsstr where
  \<open>wrapDiagram_open = js (
     ''\<newline>'' @
     ''      <div class="architecture-diagram" style="\<newline>'' @
     ''        font-family: 'Space Grotesk', sans-serif;\<newline>'' @
     ''        background: rgba(42, 42, 58, 0.8);\<newline>'' @
     ''        border-radius: 16px;\<newline>'' @
     ''        padding: 2rem;\<newline>'' @
     ''        margin: 1rem 0;\<newline>'' @
     ''        width: 100%;\<newline>'' @
     ''        box-sizing: border-box;\<newline>'' @
     ''        border: 1px solid rgba(255, 255, 255, 0.1);\<newline>'' @
     ''        overflow-x: auto;\<newline>'' @
     ''      ">\<newline>'' @
     ''        '')\<close>

definition wrapDiagram_close :: jsstr where
  \<open>wrapDiagram_close = js (
     ''\<newline>'' @
     ''      </div>\<newline>'' @
     ''    '')\<close>

definition generateFallbackDiagram_open :: jsstr where
  \<open>generateFallbackDiagram_open = js (
     ''\<newline>'' @
     ''      <div class="diagram-fallback" style="\<newline>'' @
     ''        padding: 2rem;\<newline>'' @
     ''        text-align: center;\<newline>'' @
     ''        background: rgba(255, 68, 168, 0.05);\<newline>'' @
     ''        border-radius: 12px;\<newline>'' @
     ''        border: 1px dashed var(--accent);\<newline>'' @
     ''        width: 100%;\<newline>'' @
     ''        box-sizing: border-box;\<newline>'' @
     ''      ">\<newline>'' @
     ''        <svg width="48" height="48" viewBox="0 0 24 24" fill="none" stroke="var(--accent)" stroke-width="2">\<newline>'' @
     ''          <path d="M10.29 3.86L1.82 18a2 2 0 0 0 1.71 3h16.94a2 2 0 0 0 1.71-3L13.71 3.86a2 2 0 0 0-3.42 0z"></path>\<newline>'' @
     ''          <line x1="12" y1="9" x2="12" y2="13"></line>\<newline>'' @
     ''          <line x1="12" y1="17" x2="12.01" y2="17"></line>\<newline>'' @
     ''        </svg>\<newline>'' @
     ''        <p style="color: var(--accent); margin-top: 1rem; width: 100%;">'')\<close>

definition generateFallbackDiagram_close :: jsstr where
  \<open>generateFallbackDiagram_close = js (
     ''</p>\<newline>'' @
     ''      </div>\<newline>'' @
     ''    '')\<close>

definition generateFallbackDiagram :: "jsstr \<Rightarrow> jsstr" where
  "generateFallbackDiagram message =
     generateFallbackDiagram_open @ message @ generateFallbackDiagram_close"

text \<open>\<open>wrapDiagram\<close>: \<open>!content\<close> holds for \<open>null\<close> and for the empty string.\<close>

definition wrapDiagram :: "jsstr option \<Rightarrow> jsstr" where
  "wrapDiagram content =
     (case content of
        None \<Rightarrow> generateFallbackDiagram (js ''No architecture diagram generated'')
      | Some c \<Rightarrow>
          if c = [] then generateFallbackDiagram (js ''No architecture diagram generated'')
          else wrapDiagram_open @ c @ wrapDiagram_close)"

section \<open>Parsing and formatting the analysis\<close>

text \<open>A thrown \<open>Error\<close> is a value; only its message is ever read.\<close>

datatype error = Error (message: jsstr)

text \<open>
  The object returned by \<open>parseAIResponse\<close>. Its field \<open>summary\<close> is named
  \<open>parsed_summary\<close> here, the name \<open>summary\<close> being kept for the final result.
\<close>

record analysis =
  rawContent :: jsstr
  diagram :: "jsstr option"
  parsed_summary :: jsstr

text \<open>
  The object handed to the presentation layer. \<open>generateFallbackResponse\<close> sets no
  \<open>rawAnalysis\<close>, which is \<open>None\<close>.
\<close>

record analysis_result =
  summary :: jsstr
  htmlSchema :: jsstr
  recommendations :: "jsstr list"
  diagramSource :: bool
  rawAnalysis :: "jsstr option"

text \<open>
  The value that \<open>data.choices?.[0]?.message?.content\<close> yields on a parsed body that
  is not \<open>null\<close>: nothing or a falsy value that is no string (\<open>No_content\<close>), a
  string (\<open>Text\<close>, falsy when empty), or a truthy value that is no string
  (\<open>Non_text\<close>). On the last, \<open>content.match\<close> in \<open>extractHtmlContent\<close> throws
  a \<open>TypeError\<close>; the constructor carries the message the runtime gives it.
\<close>

datatype content_value = No_content | Text jsstr | Non_text jsstr

text \<open>
  The parsed body \<open>data\<close>. On \<open>null\<close> the unguarded read \<open>data.choices\<close>
  throws a \<open>TypeError\<close>, whose message the constructor carries; every other JSON value
  goes through the optional chain.
\<close>

datatype response_data = Null_data jsstr | Data content_value

definition parseAIResponse :: "response_data \<Rightarrow> error + analysis" where
  "parseAIResponse data =
     (case data of
        Null_data m \<Rightarrow> Inl (Error m)
      | Data No_content \<Rightarrow> Inl (Error (js ''Invalid AI response format''))
      | Data (Text c) \<Rightarrow>
          if c = [] then Inl (Error (js ''Invalid AI response format''))
          else Inr \<lparr>rawContent = c, diagram = extractHtmlContent c,
                    parsed_summary = extractTextSummary c\<rparr>
      | Data (Non_text m) \<Rightarrow> Inl (Error m))"

definition formatAnalysisResults :: "analysis \<Rightarrow> analysis_result" where
  "formatAnalysisResults a =
     \<lparr>summary = parsed_summary a,
      htmlSchema = wrapDiagram (diagram a),
      recommendations = extractRecommendations (rawContent a),
      diagramSource = True,
      rawAnalysis = Some (rawContent a)\<rparr>"

definition getFallbackRecommendations :: "jsstr list" where
  "getFallbackRecommendations =
     [js ''Verify API configuration'',
      js ''Check repository accessibility'',
      js ''Retry analysis later'']"

definition generateFallbackResponse :: "error \<Rightarrow> analysis_result" where
  "generateFallbackResponse e =
     \<lparr>summary = js ''Analysis failed: '' @ message e,
      htmlSchema = generateFallbackDiagram (message e),
      recommendations = getFallbackRecommendations,
      diagramSource = False,
      rawAnalysis = None\<rparr>"

section \<open>The completion request with retries\<close>

text \<open>
  What one request can come to: \<open>fetch\<close> rejects (a transport error, or the abort
  fired by the per-attempt timer; the runtime chooses the message), or it resolves with a
  status and a body. Either \<open>response.json()\<close> rejects, with a message of the
  runtime, or it gives the parsed body handed to \<open>parseAIResponse\<close>.
\<close>

datatype body = Json_invalid jsstr | Json response_data

datatype attempt_outcome =
    Transport_error jsstr
  | Timed_out jsstr
  | Responded nat body

text \<open>
  The part of \<open>this.config\<close> that steers the retries. \<open>url\<close>, \<open>model\<close> and
  \<open>temperature\<close> only fill the request; \<open>timeout\<close> arms the abort timer, whose
  firing is the outcome \<open>Timed_out\<close>. The values are the defaults or come from the
  environment; they are taken to be non-negative integers (in \<open>>=\<close> and \<open>*\<close> a
  string of digits from the environment acts as its number).
\<close>

record config =
  maxRetries :: nat
  retryDelay :: nat
  timeout :: nat

definition DEFAULT_CONFIG :: config where
  "DEFAULT_CONFIG = \<lparr>maxRetries = 3, retryDelay = 1000, timeout = 15000\<rparr>"

text \<open>The body of the \<open>try\<close> block of \<open>fetchWithRetry\<close>, for one outcome.\<close>

definition attempt_once :: "attempt_outcome \<Rightarrow> error + analysis" where
  "attempt_once out =
     (case out of
        Transport_error m \<Rightarrow> Inl (Error m)
      | Timed_out m \<Rightarrow> Inl (Error m)
      | Responded status b \<Rightarrow>
          if \<not> (200 \<le> status \<and> status \<le> 299)
          then Inl (Error (js ''API request failed with status '' @ show_nat status))
          else (case b of
                  Json_invalid m \<Rightarrow> Inl (Error m)
                | Json data \<Rightarrow> parseAIResponse data))"

text \<open>
  What \<open>fetchWithRetry\<close> does to the outside world, in order: the request of an
  attempt, and the sleep of \<open>setTimeout\<close> with its delay in milliseconds.
\<close>

datatype event = Request nat | Sleep nat

text \<open>
  \<open>fetchWithRetry\<close>: the environment gives the outcome of the request of each
  attempt. The result is the value returned or the error thrown, with the events in order.
\<close>

function fetchWithRetry ::
  "config \<Rightarrow> (nat \<Rightarrow> attempt_outcome) \<Rightarrow> nat \<Rightarrow> (error + analysis) \<times> event list" where
  "fetchWithRetry cfg env attempt =
     (case attempt_once (env attempt) of
        Inr a \<Rightarrow> (Inr a, [Request attempt])
      | Inl e \<Rightarrow>
          if attempt \<ge> maxRetries cfg then (Inl e, [Request attempt])
          else (case fetchWithRetry cfg env (attempt + 1) of
                  (r, tr) \<Rightarrow> (r, Request attempt # Sleep (retryDelay cfg * attempt) # tr)))"
  by pat_completeness auto
termination
  by (relation "measure (\<lambda>(cfg, env, attempt). maxRetries cfg - attempt)") auto

declare fetchWithRetry.simps [simp del]

section \<open>\<open>analyzeRepository\<close>\<close>

text \<open>
  The argument of \<open>analyzeRepository\<close>: an object, or a value that fails
  \<open>validateRepoInfo\<close> (\<open>undefined\<close>, \<open>null\<close>, a primitive).
\<close>

datatype 'a js_arg = Not_an_object | Object 'a

text \<open>\<open>this.apiKey\<close> is \<open>None\<close> when the environment variable is not set.\<close>

definition validateApiKey :: "jsstr option \<Rightarrow> error + unit" where
  "validateApiKey apiKey =
     (case apiKey of
        None \<Rightarrow> Inl (Error (js ''DeepSeek API key not configured''))
      | Some k \<Rightarrow>
          if k = [] then Inl (Error (js ''DeepSeek API key not configured''))
          else Inr ())"

definition validateRepoInfo :: "'a js_arg \<Rightarrow> error + unit" where
  "validateRepoInfo repoInfo =
     (case repoInfo of
        Not_an_object \<Rightarrow> Inl (Error (js ''Invalid repository information''))
      | Object _ \<Rightarrow> Inr ())"

text \<open>
  The \<open>try\<close> block of \<open>analyzeRepository\<close>. The prompt is the same text in every
  request; the outcomes are the environment's.
\<close>

definition analysis_steps ::
  "jsstr option \<Rightarrow> 'a js_arg \<Rightarrow> config \<Rightarrow> (nat \<Rightarrow> attempt_outcome) \<Rightarrow> error + analysis_result" where
  "analysis_steps apiKey repoInfo cfg env =
     (case validateApiKey apiKey of
        Inl e \<Rightarrow> Inl e
      | Inr _ \<Rightarrow>
          (case validateRepoInfo repoInfo of
             Inl e \<Rightarrow> Inl e
           | Inr _ \<Rightarrow>
               (case fst (fetchWithRetry cfg env 1) of
                  Inl e \<Rightarrow> Inl e
                | Inr a \<Rightarrow> Inr (formatAnalysisResults a))))"

definition analyzeRepository ::
  "jsstr option \<Rightarrow> 'a js_arg \<Rightarrow> config \<Rightarrow> (nat \<Rightarrow> attempt_outcome) \<Rightarrow> analysis_result" where
  "analyzeRepository apiKey repoInfo cfg env =
     (case analysis_steps apiKey repoInfo cfg env of
        Inl e \<Rightarrow> generateFallbackResponse e
      | Inr r \<Rightarrow> r)"

section \<open>\<open>GitHubService\<close>\<close>

text \<open>
  The repository object of the GitHub API, as far as \<open>formatRepoData\<close> reads it.
  \<open>data_license\<close> is \<open>None\<close> when \<open>data.license\<close> is \<open>null\<close> or missing, and
  otherwise holds the \<open>spdx_id\<close> of the license object (\<open>None\<close> when that object
  has none). \<open>data_topics\<close> is \<open>None\<close> when \<open>data.topics\<close> is missing.
  \<open>data_size\<close> is the integer the API reports.
\<close>

record repo_data =
  data_name :: jsstr
  data_owner_login :: jsstr
  data_description :: "jsstr option"
  data_html_url :: jsstr
  data_stargazers_count :: nat
  data_forks_count :: nat
  data_open_issues_count :: nat
  data_language :: "jsstr option"
  data_license :: "jsstr option option"
  data_created_at :: jsstr
  data_updated_at :: jsstr
  data_size :: nat
  data_topics :: "jsstr list option"

text \<open>
  The object built by \<open>formatRepoData\<close>. Its field \<open>size\<close> is named
  \<open>size_text\<close> here. An \<open>undefined\<close> field is \<open>None\<close>.
\<close>

record repo_metadata =
  name :: jsstr
  owner :: jsstr
  description :: "jsstr option"
  url :: jsstr
  stars :: nat
  forks :: nat
  issues :: nat
  language :: "jsstr option"
  license :: "jsstr option"
  createdAt :: jsstr
  updatedAt :: jsstr
  size_text :: jsstr
  topics :: "jsstr list"

text \<open>
  \<open>(data.size / 1024).toFixed(1)\<close> for an integer size below \<open>2^53\<close>: the quotient is
  exact in binary floating point, and \<open>toFixed(1)\<close> takes the number of tenths nearest
  to it, the larger one on a tie, and prints it with one digit after the point.
\<close>

definition tenths_of_1024 :: "nat \<Rightarrow> nat" where
  "tenths_of_1024 n = (20 * n + 1024) div 2048"

definition toFixed1_div_1024 :: "nat \<Rightarrow> jsstr" where
  "toFixed1_div_1024 n =
     show_nat (tenths_of_1024 n div 10) @ js ''.'' @ show_nat (tenths_of_1024 n mod 10)"

text \<open>
  \<open>formatRepoData\<close>. The parameter stands for
  \<open>s \<mapsto> new Date(s).toLocaleDateString()\<close>, whose result depends on the locale and
  the time zone of the host.
\<close>

definition formatRepoData :: "(jsstr \<Rightarrow> jsstr) \<Rightarrow> repo_data \<Rightarrow> repo_metadata" where
  "formatRepoData toLocaleDateString d =
     \<lparr>name = data_name d,
      owner = data_owner_login d,
      description = data_description d,
      url = data_html_url d,
      stars = data_stargazers_count d,
      forks = data_forks_count d,
      issues = data_open_issues_count d,
      language = data_language d,
      license = (case data_license d of None \<Rightarrow> None | Some l \<Rightarrow> l),
      createdAt = toLocaleDateString (data_created_at d),
      updatedAt = toLocaleDateString (data_updated_at d),
      size_text = toFixed1_div_1024 (data_size d) @ js '' MB'',
      topics = (case data_topics d of None \<Rightarrow> [] | Some ts \<Rightarrow> ts)\<rparr>"

text \<open>
  The request of \<open>getRepoInfo\<close> either yields the repository object or fails; a
  failure carries \<open>error.response?.status\<close>.
\<close>

datatype github_outcome = GitHub_data repo_data | GitHub_failed "nat option"

definition handleGitHubError :: "nat option \<Rightarrow> error" where
  "handleGitHubError status =
     (if status = Some 404 then Error (js ''D'' @ [0xE9] @ js ''p'' @ [0xF4] @ js ''t non trouv'' @ [0xE9])
      else if status = Some 403
      then Error (js ''Limite de requ'' @ [0xEA] @ js ''tes GitHub atteinte'')
      else Error (js ''Erreur de communication avec GitHub''))"

definition getRepoInfo :: "(jsstr \<Rightarrow> jsstr) \<Rightarrow> github_outcome \<Rightarrow> error + repo_metadata" where
  "getRepoInfo toLocaleDateString gh =
     (case gh of
        GitHub_data d \<Rightarrow> Inr (formatRepoData toLocaleDateString d)
      | GitHub_failed status \<Rightarrow> Inl (handleGitHubError status))"

section \<open>The controller\<close>




section \<open>Notions and sample inputs of the statements\<close>

text \<open>
  Nothing in this section is code of the repository. The predicates say, in terms of the
  text or of the outcome alone, what the statements below speak about (a failed request, a
  fenced block, a marked div, the heading, a run of text); the
  theorems compare the functions above with them. The constants are inputs at which
  statements are evaluated.
\<close>

text \<open>
  A request that fails before any body is read: a transport error, the abort of the
  per-attempt timer, or a status outside 200 to 299 (\<open>!response.ok\<close>).
\<close>

definition request_fails :: "attempt_outcome \<Rightarrow> bool" where
  "request_fails out =
     (case out of
        Transport_error _ \<Rightarrow> True
      | Timed_out _ \<Rightarrow> True
      | Responded status _ \<Rightarrow> \<not> (200 \<le> status \<and> status \<le> 299))"

text \<open>An endpoint that answers every request with status 503.\<close>

definition always_503 :: "nat \<Rightarrow> attempt_outcome" where
  "always_503 n = Responded 503 (Json (Data No_content))"

text \<open>
  An endpoint whose first answer has status 200 and no message content, and whose later
  answers have status 200 and the content \<open>ok\<close>.
\<close>

definition malformed_then_ok :: "nat \<Rightarrow> attempt_outcome" where
  "malformed_then_ok n =
     (if n = 1 then Responded 200 (Json (Data No_content))
      else Responded 200 (Json (Data (Text (js ''ok'')))))"

text \<open>
  A body that gives no message text to work on: it is not JSON, it is \<open>null\<close>, or
  its message content is missing, falsy, the empty string, or no string at all.
\<close>

definition lacks_message :: "body \<Rightarrow> bool" where
  "lacks_message b = (case b of Json (Data (Text c)) \<Rightarrow> c = [] | _ \<Rightarrow> True)"


text \<open>
  An endpoint whose every answer has status 200 and the body \<open>null\<close>, with the
  message of the \<open>TypeError\<close> as Node words it.
\<close>

definition answers_null :: "nat \<Rightarrow> attempt_outcome" where
  "answers_null n =
     Responded 200 (Json (Null_data (js ''Cannot read properties of null (reading 'choices')'')))"

text \<open>An endpoint that answers every request with status 200 and the content \<open>hello\<close>.\<close>

definition answers_hello :: "nat \<Rightarrow> attempt_outcome" where
  "answers_hello n = Responded 200 (Json (Data (Text (js ''hello''))))"

text \<open>
  A fenced block with a tag: the opening fence, the tag, an interior, the closing fence.
  The first fenced block is the one that opens first and, from there, closes first.
\<close>

definition has_fenced_block :: "jsstr \<Rightarrow> jsstr \<Rightarrow> bool" where
  "has_fenced_block tag s \<longleftrightarrow> (\<exists>pre g post. s = pre @ fence @ tag @ g @ fence @ post)"

definition first_fenced_block :: "jsstr \<Rightarrow> jsstr \<Rightarrow> jsstr \<Rightarrow> bool" where
  "first_fenced_block tag s g \<longleftrightarrow>
     (\<exists>pre post. s = pre @ fence @ tag @ g @ fence @ post \<and>
        (\<forall>pre' g' post'. s = pre' @ fence @ tag @ g' @ fence @ post' \<longrightarrow>
           length pre \<le> length pre' \<and> (length pre' = length pre \<longrightarrow> length g \<le> length g')))"

text \<open>
  A marked div: the text \<open><div\<close>, attributes without \<open>>\<close> that contain the
  literal \<open>class="architecture-diagram"\<close>, \<open>>\<close>, a body, and \<open></div>\<close>. The
  first marked div opens first and ends at the first \<open></div>\<close> after its opening
  tag. This is a stretch of text, not an element of the document: when divs are nested
  inside, it ends at the first inner closing tag.
\<close>

definition has_marked_div :: "jsstr \<Rightarrow> bool" where
  "has_marked_div s \<longleftrightarrow>
     (\<exists>pre attrs body post.
        s = pre @ js ''<div'' @ attrs @ [0x3E] @ body @ js ''</div>'' @ post \<and>
        0x3E \<notin> set attrs \<and> sublist class_marker attrs)"

definition first_marked_div :: "jsstr \<Rightarrow> jsstr \<Rightarrow> bool" where
  "first_marked_div s el \<longleftrightarrow>
     (\<exists>pre attrs body post.
        s = pre @ el @ post \<and> el = js ''<div'' @ attrs @ [0x3E] @ body @ js ''</div>'' \<and>
        0x3E \<notin> set attrs \<and> sublist class_marker attrs \<and>
        (\<forall>pre' attrs' body' post'.
           s = pre' @ js ''<div'' @ attrs' @ [0x3E] @ body' @ js ''</div>'' @ post' \<and>
           0x3E \<notin> set attrs' \<and> sublist class_marker attrs' \<longrightarrow>
           length pre \<le> length pre' \<and>
           (length pre' = length pre \<longrightarrow> length body \<le> length body')))"

text \<open>
  The heading word somewhere in the text, in any mix of upper and lower case; and the
  text left after its first occurrence.
\<close>

definition has_heading :: "jsstr \<Rightarrow> bool" where
  "has_heading s \<longleftrightarrow>
     (\<exists>pre w post. s = pre @ w @ post \<and> map canonicalize w = map canonicalize heading_word)"

definition first_heading :: "jsstr \<Rightarrow> jsstr \<Rightarrow> bool" where
  "first_heading s rest \<longleftrightarrow>
     (\<exists>pre w. s = pre @ w @ rest \<and> map canonicalize w = map canonicalize heading_word \<and>
        (\<forall>pre' w' rest'. s = pre' @ w' @ rest' \<and>
           map canonicalize w' = map canonicalize heading_word \<longrightarrow> length pre \<le> length pre'))"

text \<open>
  The run of text from the start of \<open>t\<close> up to a blank line (two line feeds in a row)
  or, when there is none, up to the end.
\<close>

definition text_run :: "jsstr \<Rightarrow> jsstr \<Rightarrow> bool" where
  "text_run t g \<longleftrightarrow>
     (\<exists>r. t = g @ r \<and> (r = [] \<or> prefix [0x0A, 0x0A] r) \<and>
        (\<forall>g' r'. t = g' @ r' \<and> (r' = [] \<or> prefix [0x0A, 0x0A] r') \<longrightarrow> length g \<le> length g'))"

text \<open>How often a text occurs in another one, counted at every index.\<close>

fun occurrences :: "jsstr \<Rightarrow> jsstr \<Rightarrow> nat" where
  "occurrences pat [] = 0"
| "occurrences pat (c # cs) = (if prefix pat (c # cs) then 1 else 0) + occurrences pat cs"

text \<open>A repository object with the size 2048, no license object and no topics.\<close>

definition sample_repo :: repo_data where
  "sample_repo =
     \<lparr>data_name = js ''demo'', data_owner_login = js ''octocat'',
      data_description = None, data_html_url = js ''https://github.com/octocat/demo'',
      data_stargazers_count = 0, data_forks_count = 0, data_open_issues_count = 0,
      data_language = None, data_license = None,
      data_created_at = js ''2020-01-01T00:00:00Z'',
      data_updated_at = js ''2020-01-02T00:00:00Z'',
      data_size = 2048, data_topics = None\<rparr>"

section \<open>Basic facts\<close>

lemma split_nl_not_Nil: "split_nl s \<noteq> []"
  by (induction s) auto

lemma extractRecommendations_length: "length (extractRecommendations content) \<le> 3"
  by (simp add: extractRecommendations_def getDefaultRecommendations_def split: option.splits)

lemma analysis_steps_Inr:
  "analysis_steps apiKey repoInfo cfg env = Inr r \<Longrightarrow>
   \<exists>a. fst (fetchWithRetry cfg env 1) = Inr a \<and> r = formatAnalysisResults a"
  by (auto simp: analysis_steps_def split: sum.splits)

section \<open>The cap on recommendations\<close>

text \<open>
  Claim C8. Whatever the raw text and whatever the outcome of the analysis, the list of
  recommendations has at most three entries: the list extracted below a heading is cut by
  \<open>slice(0, 3)\<close>, the default list and the fallback list have three entries each, and
  the result of \<open>analyzeRepository\<close> carries one of these.
\<close>

theorem recommendations_at_most_three:
  "length (extractRecommendations rawText) \<le> 3 \<and>
   length getDefaultRecommendations \<le> 3 \<and>
   length getFallbackRecommendations \<le> 3 \<and>
   length (recommendations (analyzeRepository apiKey repoInfo cfg env)) \<le> 3"
proof -
  have "length (recommendations (analyzeRepository apiKey repoInfo cfg env)) \<le> 3"
  proof (cases "analysis_steps apiKey repoInfo cfg env")
    case (Inl e)
    then show ?thesis
      by (simp add: analyzeRepository_def generateFallbackResponse_def
          getFallbackRecommendations_def)
  next
    case (Inr r)
    then obtain a where "r = formatAnalysisResults a"
      using analysis_steps_Inr by blast
    with Inr show ?thesis
      by (simp add: analyzeRepository_def formatAnalysisResults_def
          extractRecommendations_length)
  qed
  then show ?thesis
    by (simp add: extractRecommendations_length getDefaultRecommendations_def
        getFallbackRecommendations_def)
qed

section \<open>Retries\<close>

lemma request_fails_attempt_once: "request_fails out \<Longrightarrow> isl (attempt_once out)"
  by (cases out) (auto simp: request_fails_def attempt_once_def)

lemma fetchWithRetry_all_fail:
  assumes "\<forall>n. a \<le> n \<and> n \<le> max a (maxRetries cfg) \<longrightarrow> isl (attempt_once (env n))"
  shows "fetchWithRetry cfg env a =
           (attempt_once (env (max a (maxRetries cfg))),
            concat (map (\<lambda>n. [Request n, Sleep (retryDelay cfg * n)]) [a..<maxRetries cfg])
              @ [Request (max a (maxRetries cfg))])"
  using assms
proof (induction "maxRetries cfg - a" arbitrary: a)
  case 0
  then have ge: "maxRetries cfg \<le> a" by simp
  then have m: "max a (maxRetries cfg) = a" by simp
  from "0.prems" m obtain e where e: "attempt_once (env a) = Inl e"
    by (cases "attempt_once (env a)") auto
  show ?case
    using ge e by (subst fetchWithRetry.simps) (simp add: m)
next
  case (Suc k)
  then have lt: "a < maxRetries cfg" by simp
  then have m: "max a (maxRetries cfg) = maxRetries cfg"
    and m': "max (Suc a) (maxRetries cfg) = maxRetries cfg" by simp_all
  from Suc.prems m obtain e where e: "attempt_once (env a) = Inl e"
    using lt by (cases "attempt_once (env a)") auto
  have k: "k = maxRetries cfg - Suc a" using Suc.hyps(2) by simp
  have "\<forall>n. Suc a \<le> n \<and> n \<le> max (Suc a) (maxRetries cfg) \<longrightarrow> isl (attempt_once (env n))"
    using Suc.prems m m' by auto
  from Suc.hyps(1)[OF k this]
  have ih: "fetchWithRetry cfg env (Suc a) =
      (attempt_once (env (maxRetries cfg)),
       concat (map (\<lambda>n. [Request n, Sleep (retryDelay cfg * n)]) [Suc a..<maxRetries cfg])
         @ [Request (maxRetries cfg)])"
    unfolding m' .
  have upt: "[a..<maxRetries cfg] = a # [Suc a..<maxRetries cfg]"
    using lt by (simp add: upt_conv_Cons)
  show ?case
    using lt e by (subst fetchWithRetry.simps) (simp add: m upt ih)
qed

text \<open>
  Claim C3. With a budget of \<open>m \<ge> 1\<close> attempts and a base delay \<open>d\<close>, when the
  request of every attempt fails (transport error, timeout, or a status outside 200 to
  299), \<open>fetchWithRetry\<close> issues the requests of attempts 1 to \<open>m\<close> and no other,
  sleeps \<open>d * n\<close> after the failed attempt \<open>n\<close> for every \<open>n < m\<close> (linear
  backoff), and then throws the error of attempt \<open>m\<close>.
\<close>

theorem bounded_linear_retries:
  assumes "1 \<le> maxRetries cfg"
    and "\<forall>n. 1 \<le> n \<and> n \<le> maxRetries cfg \<longrightarrow> request_fails (env n)"
  shows "fetchWithRetry cfg env 1 =
           (attempt_once (env (maxRetries cfg)),
            concat (map (\<lambda>n. [Request n, Sleep (retryDelay cfg * n)]) [1..<maxRetries cfg])
              @ [Request (maxRetries cfg)]) \<and>
         isl (attempt_once (env (maxRetries cfg))) \<and>
         [n. Request n \<leftarrow> snd (fetchWithRetry cfg env 1)] = [1..<Suc (maxRetries cfg)] \<and>
         [t. Sleep t \<leftarrow> snd (fetchWithRetry cfg env 1)] =
           map (\<lambda>n. retryDelay cfg * n) [1..<maxRetries cfg]"
proof -
  have m: "max 1 (maxRetries cfg) = maxRetries cfg" using assms(1) by simp
  have fails: "\<forall>n. 1 \<le> n \<and> n \<le> max 1 (maxRetries cfg) \<longrightarrow> isl (attempt_once (env n))"
    using assms(2) m request_fails_attempt_once by auto
  have run: "fetchWithRetry cfg env 1 =
           (attempt_once (env (maxRetries cfg)),
            concat (map (\<lambda>n. [Request n, Sleep (retryDelay cfg * n)]) [1..<maxRetries cfg])
              @ [Request (maxRetries cfg)])"
    using fetchWithRetry_all_fail[OF fails] unfolding m .
  have last: "isl (attempt_once (env (maxRetries cfg)))"
    using fails assms(1) m by auto
  have reqs: "[n. Request n \<leftarrow> concat (map (\<lambda>n. [Request n, Sleep (d * n)]) ns) @ [Request k]]
      = ns @ [k]" for d k and ns :: "nat list"
    by (induction ns) auto
  have sleeps: "[t. Sleep t \<leftarrow> concat (map (\<lambda>n. [Request n, Sleep (d * n)]) ns) @ [Request k]]
      = map (\<lambda>n. d * n) ns" for d k and ns :: "nat list"
    by (induction ns) auto
  have upt: "[1..<maxRetries cfg] @ [maxRetries cfg] = [1..<Suc (maxRetries cfg)]"
    using assms(1) by simp
  have r: "[n. Request n \<leftarrow> snd (fetchWithRetry cfg env 1)] = [1..<Suc (maxRetries cfg)]"
    unfolding run snd_conv reqs upt ..
  have s: "[t. Sleep t \<leftarrow> snd (fetchWithRetry cfg env 1)] =
           map (\<lambda>n. retryDelay cfg * n) [1..<maxRetries cfg]"
    unfolding run snd_conv sleeps ..
  from run last r s show ?thesis by blast
qed

theorem bounded_linear_retries_witness:
  "fetchWithRetry DEFAULT_CONFIG always_503 1 =
     (Inl (Error (js ''API request failed with status 503'')),
      [Request 1, Sleep 1000, Request 2, Sleep 2000, Request 3])"
proof -
  have a: "1 \<le> maxRetries DEFAULT_CONFIG" by (simp add: DEFAULT_CONFIG_def)
  have b: "\<forall>n. 1 \<le> n \<and> n \<le> maxRetries DEFAULT_CONFIG \<longrightarrow> request_fails (always_503 n)"
    by (simp add: request_fails_def always_503_def)
  have u: "[1..<maxRetries DEFAULT_CONFIG] = [1, 2]"
    by (simp add: DEFAULT_CONFIG_def upt_rec)
  have e: "attempt_once (always_503 (maxRetries DEFAULT_CONFIG)) =
      Inl (Error (js ''API request failed with status 503''))"
    by (simp add: always_503_def attempt_once_def js_def show_nat.simps)
  have d: "retryDelay DEFAULT_CONFIG = 1000" "maxRetries DEFAULT_CONFIG = 3"
    by (simp_all add: DEFAULT_CONFIG_def)
  from bounded_linear_retries[OF a b]
  have "fetchWithRetry DEFAULT_CONFIG always_503 1 =
           (attempt_once (always_503 (maxRetries DEFAULT_CONFIG)),
            concat (map (\<lambda>n. [Request n, Sleep (retryDelay DEFAULT_CONFIG * n)])
              [1..<maxRetries DEFAULT_CONFIG])
              @ [Request (maxRetries DEFAULT_CONFIG)])"
    by (rule conjunct1)
  then show ?thesis
    unfolding u e by (simp add: d)
qed

section \<open>A response without message content\<close>

lemma fetchWithRetry_returns:
  "attempt_once (env a) = Inr r \<Longrightarrow> fetchWithRetry cfg env a = (Inr r, [Request a])"
  by (subst fetchWithRetry.simps) simp

lemma fetchWithRetry_throws:
  "attempt_once (env a) = Inl e \<Longrightarrow> maxRetries cfg \<le> a \<Longrightarrow>
   fetchWithRetry cfg env a = (Inl e, [Request a])"
  by (subst fetchWithRetry.simps) simp

lemma fetchWithRetry_retries:
  "attempt_once (env a) = Inl e \<Longrightarrow> a < maxRetries cfg \<Longrightarrow>
   fetchWithRetry cfg env a =
     (fst (fetchWithRetry cfg env (a + 1)),
      Request a # Sleep (retryDelay cfg * a) # snd (fetchWithRetry cfg env (a + 1)))"
  by (subst fetchWithRetry.simps) (simp split: prod.splits)

text \<open>
  Claim C2 says that a response with a 2xx status and no message content ends the call
  with a malformed-response failure, whatever is left of the budget. The call of
  \<open>parseAIResponse\<close> stands inside the \<open>try\<close> block of \<open>fetchWithRetry\<close>, so its
  error is caught like any other: with the default budget of three attempts, after such a
  first response the client sleeps, sends a second request and returns its analysis.
\<close>

theorem malformed_response_retried_counterexample:
  "fetchWithRetry DEFAULT_CONFIG malformed_then_ok 1 =
     (parseAIResponse (Data (Text (js ''ok''))), [Request 1, Sleep 1000, Request 2]) \<and>
   isl (parseAIResponse (Data (Text (js ''ok'')))) = False"
proof -
  have 1: "attempt_once (malformed_then_ok 1) = Inl (Error (js ''Invalid AI response format''))"
    by (simp add: malformed_then_ok_def attempt_once_def parseAIResponse_def)
  have ok: "parseAIResponse (Data (Text (js ''ok''))) =
      Inr \<lparr>rawContent = js ''ok'', diagram = extractHtmlContent (js ''ok''),
           parsed_summary = extractTextSummary (js ''ok'')\<rparr>"
    by (simp add: parseAIResponse_def js_def)
  have 2: "attempt_once (malformed_then_ok 2) =
      Inr \<lparr>rawContent = js ''ok'', diagram = extractHtmlContent (js ''ok''),
           parsed_summary = extractTextSummary (js ''ok'')\<rparr>"
    by (simp add: malformed_then_ok_def attempt_once_def ok)
  have lt: "1 < maxRetries DEFAULT_CONFIG"
    by (simp add: DEFAULT_CONFIG_def)
  have d: "retryDelay DEFAULT_CONFIG * 1 = 1000"
    by (simp add: DEFAULT_CONFIG_def)
  have "fetchWithRetry DEFAULT_CONFIG malformed_then_ok 1 =
     (parseAIResponse (Data (Text (js ''ok''))), [Request 1, Sleep 1000, Request 2])"
    unfolding fetchWithRetry_retries[where env = malformed_then_ok and a = 1, OF 1 lt]
      one_add_one fetchWithRetry_returns[where env = malformed_then_ok and a = 2, OF 2]
      fst_conv snd_conv d ok ..
  then show ?thesis by (simp add: ok)
qed

text \<open>
  Claim C2 as amended. A response with a 2xx status whose body gives no message text (it
  is not JSON, it is \<open>null\<close>, or its message content is missing, falsy, empty or no
  string) counts as a failed attempt like any other: while the attempt number is below the
  budget, the client sleeps \<open>retryDelay * attempt\<close> and goes on with the next attempt;
  on the last attempt of the budget it throws without a further request. The error thrown
  is \<open>Invalid AI response format\<close> when the content is missing, falsy or empty, and
  the error of the runtime when the body is not JSON, is \<open>null\<close>, or holds a content
  that is no string.
\<close>

theorem malformed_response_is_retried:
  assumes "200 \<le> status \<and> status \<le> 299"
    and "lacks_message b"
    and "env attempt = Responded status b"
  shows "(attempt < maxRetries cfg \<longrightarrow>
            fetchWithRetry cfg env attempt =
              (fst (fetchWithRetry cfg env (attempt + 1)),
               Request attempt # Sleep (retryDelay cfg * attempt)
                 # snd (fetchWithRetry cfg env (attempt + 1)))) \<and>
         (maxRetries cfg \<le> attempt \<longrightarrow>
            (\<exists>e. fetchWithRetry cfg env attempt = (Inl e, [Request attempt]) \<and>
                 (b = Json (Data No_content) \<or> b = Json (Data (Text [])) \<longrightarrow>
                    e = Error (js ''Invalid AI response format'')) \<and>
                 (\<forall>m. b = Json_invalid m \<or> b = Json (Null_data m) \<or>
                      b = Json (Data (Non_text m)) \<longrightarrow> e = Error m)))"
proof -
  obtain e where e: "attempt_once (env attempt) = Inl e"
    and inv: "b = Json (Data No_content) \<or> b = Json (Data (Text [])) \<longrightarrow>
                    e = Error (js ''Invalid AI response format'')"
    and rt: "\<forall>m. b = Json_invalid m \<or> b = Json (Null_data m) \<or>
                      b = Json (Data (Non_text m)) \<longrightarrow> e = Error m"
    using assms
    by (auto simp: attempt_once_def parseAIResponse_def lacks_message_def
        split: body.splits response_data.splits content_value.splits)
  from fetchWithRetry_throws[where env = env and a = attempt, OF e] inv rt
  have "maxRetries cfg \<le> attempt \<longrightarrow>
            (\<exists>e. fetchWithRetry cfg env attempt = (Inl e, [Request attempt]) \<and>
                 (b = Json (Data No_content) \<or> b = Json (Data (Text [])) \<longrightarrow>
                    e = Error (js ''Invalid AI response format'')) \<and>
                 (\<forall>m. b = Json_invalid m \<or> b = Json (Null_data m) \<or>
                      b = Json (Data (Non_text m)) \<longrightarrow> e = Error m))"
    by blast
  with fetchWithRetry_retries[where env = env and a = attempt, OF e] show ?thesis
    by blast
qed

theorem malformed_response_is_retried_witness:
  "fetchWithRetry DEFAULT_CONFIG malformed_then_ok 1 =
     (fst (fetchWithRetry DEFAULT_CONFIG malformed_then_ok 2),
      Request 1 # Sleep 1000 # snd (fetchWithRetry DEFAULT_CONFIG malformed_then_ok 2)) \<and>
   fetchWithRetry (DEFAULT_CONFIG\<lparr>maxRetries := 1\<rparr>) malformed_then_ok 1 =
     (Inl (Error (js ''Invalid AI response format'')), [Request 1]) \<and>
   fetchWithRetry (DEFAULT_CONFIG\<lparr>maxRetries := 1\<rparr>) answers_null 1 =
     (Inl (Error (js ''Cannot read properties of null (reading 'choices')'')), [Request 1])"
proof -
  have a: "(200::nat) \<le> 200 \<and> (200::nat) \<le> 299" by simp
  have b: "lacks_message (Json (Data No_content))"
    and b': "lacks_message (Json (Null_data (js ''Cannot read properties of null (reading 'choices')'')))"
    by (simp_all add: lacks_message_def)
  have c: "malformed_then_ok 1 = Responded 200 (Json (Data No_content))"
    by (simp add: malformed_then_ok_def)
  have c': "answers_null 1 =
      Responded 200 (Json (Null_data (js ''Cannot read properties of null (reading 'choices')'')))"
    by (simp add: answers_null_def)
  have lt: "1 < maxRetries DEFAULT_CONFIG"
    and le: "maxRetries (DEFAULT_CONFIG\<lparr>maxRetries := 1\<rparr>) \<le> 1"
    and d: "retryDelay DEFAULT_CONFIG * 1 = 1000"
    by (simp_all add: DEFAULT_CONFIG_def)
  from malformed_response_is_retried[where env = malformed_then_ok and attempt = 1
        and status = 200 and b = "Json (Data No_content)" and cfg = DEFAULT_CONFIG, OF a b c] lt
  have x: "fetchWithRetry DEFAULT_CONFIG malformed_then_ok 1 =
     (fst (fetchWithRetry DEFAULT_CONFIG malformed_then_ok (1 + 1)),
      Request 1 # Sleep (retryDelay DEFAULT_CONFIG * 1)
        # snd (fetchWithRetry DEFAULT_CONFIG malformed_then_ok (1 + 1)))"
    by blast
  from malformed_response_is_retried[where env = malformed_then_ok and attempt = 1
        and status = 200 and b = "Json (Data No_content)"
        and cfg = "DEFAULT_CONFIG\<lparr>maxRetries := 1\<rparr>", OF a b c] le
  have y: "fetchWithRetry (DEFAULT_CONFIG\<lparr>maxRetries := 1\<rparr>) malformed_then_ok 1 =
     (Inl (Error (js ''Invalid AI response format'')), [Request 1])"
    by auto
  from malformed_response_is_retried[where env = answers_null and attempt = 1
        and status = 200
        and b = "Json (Null_data (js ''Cannot read properties of null (reading 'choices')''))"
        and cfg = "DEFAULT_CONFIG\<lparr>maxRetries := 1\<rparr>", OF a b' c'] le
  have z: "fetchWithRetry (DEFAULT_CONFIG\<lparr>maxRetries := 1\<rparr>) answers_null 1 =
     (Inl (Error (js ''Cannot read properties of null (reading 'choices')'')), [Request 1])"
    by auto
  from x y z show ?thesis
    unfolding one_add_one d by blast
qed

section \<open>The result of \<open>analyzeRepository\<close>\<close>




lemma extractHtmlContent_hello: "extractHtmlContent (js ''hello'') = None"
  by (simp add: extractHtmlContent_def fenced_at_def fence_def diagram_div_at_def js_def)

lemma analysis_steps_hello:
  "analysis_steps (Some (js ''key'')) (Object ()) DEFAULT_CONFIG answers_hello =
     Inr (formatAnalysisResults
       \<lparr>rawContent = js ''hello'', diagram = extractHtmlContent (js ''hello''),
        parsed_summary = extractTextSummary (js ''hello'')\<rparr>)"
proof -
  have p: "attempt_once (answers_hello 1) =
      Inr \<lparr>rawContent = js ''hello'', diagram = extractHtmlContent (js ''hello''),
        parsed_summary = extractTextSummary (js ''hello'')\<rparr>"
    by (simp add: answers_hello_def attempt_once_def parseAIResponse_def js_def)
  have k: "validateApiKey (Some (js ''key'')) = Inr ()"
    by (simp add: validateApiKey_def js_def)
  show ?thesis
    unfolding analysis_steps_def k fetchWithRetry_returns[where env = answers_hello and a = 1, OF p]
    by (simp add: validateRepoInfo_def)
qed





subsection \<open>The flag \<open>diagramSource\<close>\<close>

text \<open>
  Claim C1 says that after a completed analysis \<open>diagramSource\<close> tells whether
  \<open>htmlSchema\<close> holds a diagram of the model, and is false when the panel
  \<open>No architecture diagram generated\<close> stands in for a missing diagram.
  \<open>formatAnalysisResults\<close> sets the flag to the constant \<open>true\<close>: for the answer
  \<open>hello\<close>, which holds no diagram, the analysis completes, \<open>htmlSchema\<close> is the
  fallback panel and \<open>diagramSource\<close> is true.
\<close>

theorem diagramSource_true_without_diagram_counterexample:
  "analysis_steps (Some (js ''key'')) (Object ()) DEFAULT_CONFIG answers_hello =
     Inr (analyzeRepository (Some (js ''key'')) (Object ()) DEFAULT_CONFIG answers_hello) \<and>
   extractHtmlContent (js ''hello'') = None \<and>
   htmlSchema (analyzeRepository (Some (js ''key'')) (Object ()) DEFAULT_CONFIG answers_hello) =
     generateFallbackDiagram (js ''No architecture diagram generated'') \<and>
   diagramSource (analyzeRepository (Some (js ''key'')) (Object ()) DEFAULT_CONFIG answers_hello)
     = True"
  by (simp add: analyzeRepository_def analysis_steps_hello formatAnalysisResults_def
      extractHtmlContent_hello wrapDiagram_def)

text \<open>
  Claim C1 as amended. After every completed analysis \<open>diagramSource\<close> is true, and
  \<open>htmlSchema\<close> is \<open>wrapDiagram\<close> of the extracted diagram: the decorated container
  around a diagram of the model, or the fallback panel when none was extracted. The flag
  is false when the analysis failed and the fallback response is returned.
\<close>

theorem diagramSource_marks_completed_analysis:
  "(analysis_steps apiKey repoInfo cfg env = Inr r \<longrightarrow>
      analyzeRepository apiKey repoInfo cfg env = r \<and> diagramSource r \<and>
      (\<exists>a. fst (fetchWithRetry cfg env 1) = Inr a \<and> htmlSchema r = wrapDiagram (diagram a))) \<and>
   (analysis_steps apiKey repoInfo cfg env = Inl e \<longrightarrow>
      \<not> diagramSource (analyzeRepository apiKey repoInfo cfg env))"
proof (intro conjI impI)
  assume r: "analysis_steps apiKey repoInfo cfg env = Inr r"
  then show "analyzeRepository apiKey repoInfo cfg env = r"
    by (simp add: analyzeRepository_def)
  from r obtain a where a: "fst (fetchWithRetry cfg env 1) = Inr a" "r = formatAnalysisResults a"
    using analysis_steps_Inr by blast
  then show "diagramSource r" by (simp add: formatAnalysisResults_def)
  from a show "\<exists>a. fst (fetchWithRetry cfg env 1) = Inr a \<and> htmlSchema r = wrapDiagram (diagram a)"
    by (auto simp: formatAnalysisResults_def)
next
  assume "analysis_steps apiKey repoInfo cfg env = Inl e"
  then show "\<not> diagramSource (analyzeRepository apiKey repoInfo cfg env)"
    by (simp add: analyzeRepository_def generateFallbackResponse_def)
qed

theorem diagramSource_marks_completed_analysis_witness:
  "diagramSource (analyzeRepository (Some (js ''key'')) (Object ()) DEFAULT_CONFIG answers_hello) \<and>
   \<not> diagramSource (analyzeRepository None (Object ()) DEFAULT_CONFIG answers_hello)"
proof -
  have n: "analysis_steps None (Object ()) DEFAULT_CONFIG answers_hello =
      Inl (Error (js ''DeepSeek API key not configured''))"
    by (simp add: analysis_steps_def validateApiKey_def)
  from diagramSource_marks_completed_analysis[where apiKey = "Some (js ''key'')"
      and repoInfo = "Object ()" and cfg = DEFAULT_CONFIG and env = answers_hello
      and r = "formatAnalysisResults
       \<lparr>rawContent = js ''hello'', diagram = extractHtmlContent (js ''hello''),
        parsed_summary = extractTextSummary (js ''hello'')\<rparr>"] analysis_steps_hello
  have 1: "diagramSource (analyzeRepository (Some (js ''key'')) (Object ()) DEFAULT_CONFIG answers_hello)"
    by simp
  from diagramSource_marks_completed_analysis[where apiKey = None
      and repoInfo = "Object ()" and cfg = DEFAULT_CONFIG and env = answers_hello
      and e = "Error (js ''DeepSeek API key not configured'')"] n
  have 2: "\<not> diagramSource (analyzeRepository None (Object ()) DEFAULT_CONFIG answers_hello)"
    by simp
  from 1 2 show ?thesis ..
qed

subsection \<open>Failures inside and before \<open>analyzeRepository\<close>\<close>





section \<open>What the searches find\<close>

subsection \<open>Leftmost match and lazy group\<close>

lemma regex_search_Some_iff:
  "regex_search m s = Some r \<longleftrightarrow>
     (\<exists>p\<le>length s. m (drop p s) = Some r \<and> (\<forall>q<p. m (drop q s) = None))"
proof (induction s)
  case Nil
  then show ?case by simp
next
  case (Cons c cs)
  show ?case
  proof (cases "m (c # cs)")
    case (Some r0)
    have "(\<exists>p\<le>length (c # cs). m (drop p (c # cs)) = Some r \<and> (\<forall>q<p. m (drop q (c # cs)) = None))
        \<longleftrightarrow> r0 = r"
    proof
      assume "\<exists>p\<le>length (c # cs). m (drop p (c # cs)) = Some r \<and> (\<forall>q<p. m (drop q (c # cs)) = None)"
      then obtain p where p: "m (drop p (c # cs)) = Some r" "\<forall>q<p. m (drop q (c # cs)) = None"
        by blast
      have "p = 0"
      proof (rule ccontr)
        assume "p \<noteq> 0"
        then have "m (drop 0 (c # cs)) = None" using p(2) by blast
        with Some show False by simp
      qed
      with p(1) Some show "r0 = r" by simp
    next
      assume "r0 = r"
      with Some have "m (drop 0 (c # cs)) = Some r \<and> (\<forall>q<0. m (drop q (c # cs)) = None)"
        by simp
      then show "\<exists>p\<le>length (c # cs). m (drop p (c # cs)) = Some r \<and> (\<forall>q<p. m (drop q (c # cs)) = None)"
        by blast
    qed
    with Some show ?thesis by simp
  next
    case None
    have "(\<exists>p\<le>length (c # cs). m (drop p (c # cs)) = Some r \<and> (\<forall>q<p. m (drop q (c # cs)) = None))
        \<longleftrightarrow> (\<exists>p\<le>length cs. m (drop p cs) = Some r \<and> (\<forall>q<p. m (drop q cs) = None))"
    proof
      assume "\<exists>p\<le>length (c # cs). m (drop p (c # cs)) = Some r \<and> (\<forall>q<p. m (drop q (c # cs)) = None)"
      then obtain p where p: "p \<le> length (c # cs)" "m (drop p (c # cs)) = Some r"
        "\<forall>q<p. m (drop q (c # cs)) = None"
        by blast
      from p(2) None obtain p' where p': "p = Suc p'"
        by (cases p) auto
      have "\<forall>q<p'. m (drop q cs) = None"
      proof (intro allI impI)
        fix q assume "q < p'"
        then have "Suc q < p" using p' by simp
        with p(3) have "m (drop (Suc q) (c # cs)) = None" by blast
        then show "m (drop q cs) = None" by simp
      qed
      with p p' show "\<exists>p\<le>length cs. m (drop p cs) = Some r \<and> (\<forall>q<p. m (drop q cs) = None)"
        by auto
    next
      assume "\<exists>p\<le>length cs. m (drop p cs) = Some r \<and> (\<forall>q<p. m (drop q cs) = None)"
      then obtain p where p: "p \<le> length cs" "m (drop p cs) = Some r"
        "\<forall>q<p. m (drop q cs) = None"
        by blast
      have "\<forall>q<Suc p. m (drop q (c # cs)) = None"
      proof (intro allI impI)
        fix q assume q: "q < Suc p"
        show "m (drop q (c # cs)) = None"
        proof (cases q)
          case 0
          with None show ?thesis by simp
        next
          case (Suc q')
          with q p(3) show ?thesis by simp
        qed
      qed
      with p have "Suc p \<le> length (c # cs) \<and> m (drop (Suc p) (c # cs)) = Some r \<and>
          (\<forall>q<Suc p. m (drop q (c # cs)) = None)"
        by simp
      then show "\<exists>p\<le>length (c # cs). m (drop p (c # cs)) = Some r \<and> (\<forall>q<p. m (drop q (c # cs)) = None)"
        by blast
    qed
    with None Cons.IH show ?thesis by simp
  qed
qed

lemma regex_search_None_iff:
  "regex_search m s = None \<longleftrightarrow> (\<forall>p\<le>length s. m (drop p s) = None)"
proof (induction s)
  case Nil
  then show ?case by simp
next
  case (Cons c cs)
  have "(\<forall>p\<le>length (c # cs). m (drop p (c # cs)) = None) \<longleftrightarrow>
      m (c # cs) = None \<and> (\<forall>p\<le>length cs. m (drop p cs) = None)"
  proof
    assume a: "\<forall>p\<le>length (c # cs). m (drop p (c # cs)) = None"
    then have "m (drop 0 (c # cs)) = None" by blast
    moreover have "\<forall>p\<le>length cs. m (drop p cs) = None"
    proof (intro allI impI)
      fix p assume "p \<le> length cs"
      then have "m (drop (Suc p) (c # cs)) = None" using a by auto
      then show "m (drop p cs) = None" by simp
    qed
    ultimately show "m (c # cs) = None \<and> (\<forall>p\<le>length cs. m (drop p cs) = None)" by simp
  next
    assume a: "m (c # cs) = None \<and> (\<forall>p\<le>length cs. m (drop p cs) = None)"
    show "\<forall>p\<le>length (c # cs). m (drop p (c # cs)) = None"
    proof (intro allI impI)
      fix p assume "p \<le> length (c # cs)"
      then show "m (drop p (c # cs)) = None"
        using a by (cases p) auto
    qed
  qed
  with Cons.IH show ?case by (simp split: option.splits)
qed

lemma lazy_until_Some:
  "lazy_until lit t = Some (g, r) \<Longrightarrow>
   t = g @ lit @ r \<and> (\<forall>g' r'. t = g' @ lit @ r' \<longrightarrow> length g \<le> length g')"
proof (induction t arbitrary: g r)
  case Nil
  then show ?case by (auto split: if_splits)
next
  case (Cons c cs)
  show ?case
  proof (cases "prefix lit (c # cs)")
    case True
    with Cons.prems have "g = []" "r = drop (length lit) (c # cs)" by simp_all
    with True show ?thesis
      by (metis append_Nil append_take_drop_id length_0_conv less_eq_nat.simps(1) list.size(3)
          prefix_def append_eq_conv_conj)
  next
    case False
    with Cons.prems obtain g0 where g0: "lazy_until lit cs = Some (g0, r)" "g = c # g0"
      by (auto split: prod.splits)
    from Cons.IH[OF g0(1)] have ih: "cs = g0 @ lit @ r"
      "\<forall>g' r'. cs = g' @ lit @ r' \<longrightarrow> length g0 \<le> length g'" by blast+
    have "\<forall>g' r'. c # cs = g' @ lit @ r' \<longrightarrow> length g \<le> length g'"
    proof (intro allI impI)
      fix g' r' assume e: "c # cs = g' @ lit @ r'"
      show "length g \<le> length g'"
      proof (cases g')
        case Nil
        with e have "prefix lit (c # cs)" by (simp add: prefix_def)
        with False show ?thesis by simp
      next
        case (Cons x g'')
        with e have "cs = g'' @ lit @ r'" by simp
        with ih(2) have "length g0 \<le> length g''" by blast
        with Cons g0(2) show ?thesis by simp
      qed
    qed
    with ih(1) g0(2) show ?thesis by simp
  qed
qed

lemma lazy_until_None: "lazy_until lit t = None \<Longrightarrow> t \<noteq> g @ lit @ r"
proof (induction t arbitrary: g)
  case Nil
  then show ?case by (auto split: if_splits)
next
  case (Cons c cs)
  then have np: "\<not> prefix lit (c # cs)" and n: "lazy_until lit cs = None"
    by (auto split: if_splits)
  show ?case
  proof (cases g)
    case Nil
    with np show ?thesis by (auto simp: prefix_def)
  next
    case (Cons x g')
    with Cons.IH[OF n, of g'] show ?thesis by auto
  qed
qed

subsection \<open>Fenced blocks\<close>

lemma fenced_at_SomeD:
  assumes "fenced_at tag t = Some g"
  shows "\<exists>post. t = fence @ tag @ g @ fence @ post \<and>
           (\<forall>g' post'. t = fence @ tag @ g' @ fence @ post' \<longrightarrow> length g \<le> length g')"
proof -
  from assms have pre: "prefix (fence @ tag) t"
    by (auto simp: fenced_at_def split: if_splits)
  then obtain rest where t: "t = (fence @ tag) @ rest"
    by (auto simp: prefix_def)
  with assms obtain post where l: "lazy_until fence rest = Some (g, post)"
    by (auto simp: fenced_at_def split: if_splits)
  from lazy_until_Some[OF l] have r: "rest = g @ fence @ post"
    and least: "\<forall>g' r'. rest = g' @ fence @ r' \<longrightarrow> length g \<le> length g'"
    by blast+
  have "\<forall>g' post'. t = fence @ tag @ g' @ fence @ post' \<longrightarrow> length g \<le> length g'"
    using t least by auto
  with t r show ?thesis by auto
qed

lemma fenced_at_NoneD:
  assumes "fenced_at tag t = None"
  shows "t \<noteq> fence @ tag @ g @ fence @ post"
proof
  assume t: "t = fence @ tag @ g @ fence @ post"
  then have "prefix (fence @ tag) t" by (simp add: prefix_def)
  with assms t have "lazy_until fence (g @ fence @ post) = None"
    by (simp add: fenced_at_def)
  from lazy_until_None[OF this] show False by blast
qed

lemma fenced_at_SomeI:
  assumes "\<forall>g' post'. g @ fence @ post = g' @ fence @ post' \<longrightarrow> length g \<le> length g'"
  shows "fenced_at tag (fence @ tag @ g @ fence @ post) = Some g"
proof (cases "fenced_at tag (fence @ tag @ g @ fence @ post)")
  case None
  from fenced_at_NoneD[OF this] show ?thesis by blast
next
  case (Some g0)
  from fenced_at_SomeD[OF this] obtain post0 where
    e: "fence @ tag @ g @ fence @ post = fence @ tag @ g0 @ fence @ post0"
    and least: "\<forall>g' post'. fence @ tag @ g @ fence @ post = fence @ tag @ g' @ fence @ post'
        \<longrightarrow> length g0 \<le> length g'"
    by blast
  from e have e': "g @ fence @ post = g0 @ fence @ post0" by simp
  with assms have "length g \<le> length g0" by blast
  moreover from least have "length g0 \<le> length g" by blast
  ultimately have "length g = length g0" by simp
  with e' have "g = g0" by simp
  with Some show ?thesis by simp
qed

lemma fenced_search_Some_iff:
  "regex_search (fenced_at tag) s = Some g \<longleftrightarrow> first_fenced_block tag s g"
proof
  assume "regex_search (fenced_at tag) s = Some g"
  then obtain p where p: "p \<le> length s" "fenced_at tag (drop p s) = Some g"
    "\<forall>q<p. fenced_at tag (drop q s) = None"
    unfolding regex_search_Some_iff by blast
  from fenced_at_SomeD[OF p(2)] obtain post where
    d: "drop p s = fence @ tag @ g @ fence @ post"
    and least: "\<forall>g' post'. drop p s = fence @ tag @ g' @ fence @ post' \<longrightarrow> length g \<le> length g'"
    by blast
  have s: "s = take p s @ fence @ tag @ g @ fence @ post"
    using d by (metis append_take_drop_id)
  have lp: "length (take p s) = p" using p(1) by simp
  have "\<forall>pre' g' post'. s = pre' @ fence @ tag @ g' @ fence @ post' \<longrightarrow>
           length (take p s) \<le> length pre' \<and>
           (length pre' = length (take p s) \<longrightarrow> length g \<le> length g')"
  proof (intro allI impI)
    fix pre' g' post' assume e: "s = pre' @ fence @ tag @ g' @ fence @ post'"
    then have dq: "drop (length pre') s = fence @ tag @ g' @ fence @ post'" by simp
    have "\<not> length pre' < p"
    proof
      assume "length pre' < p"
      with p(3) have "fenced_at tag (drop (length pre') s) = None" by blast
      from fenced_at_NoneD[OF this] dq show False by blast
    qed
    then have 1: "length (take p s) \<le> length pre'" using lp by simp
    have 2: "length pre' = length (take p s) \<longrightarrow> length g \<le> length g'"
    proof
      assume "length pre' = length (take p s)"
      then have "length pre' = p" using lp by simp
      with dq have "drop p s = fence @ tag @ g' @ fence @ post'" by simp
      with least show "length g \<le> length g'" by blast
    qed
    from 1 2 show "length (take p s) \<le> length pre' \<and>
           (length pre' = length (take p s) \<longrightarrow> length g \<le> length g')" ..
  qed
  with s show "first_fenced_block tag s g"
    unfolding first_fenced_block_def by blast
next
  assume "first_fenced_block tag s g"
  then obtain pre post where s: "s = pre @ fence @ tag @ g @ fence @ post"
    and least: "\<forall>pre' g' post'. s = pre' @ fence @ tag @ g' @ fence @ post' \<longrightarrow>
           length pre \<le> length pre' \<and> (length pre' = length pre \<longrightarrow> length g \<le> length g')"
    unfolding first_fenced_block_def by blast
  have d: "drop (length pre) s = fence @ tag @ g @ fence @ post" using s by simp
  have "\<forall>g' post'. g @ fence @ post = g' @ fence @ post' \<longrightarrow> length g \<le> length g'"
  proof (intro allI impI)
    fix g' post' assume "g @ fence @ post = g' @ fence @ post'"
    with s have "s = pre @ fence @ tag @ g' @ fence @ post'" by simp
    with least show "length g \<le> length g'" by blast
  qed
  from fenced_at_SomeI[OF this] d
  have 1: "fenced_at tag (drop (length pre) s) = Some g" by simp
  have 2: "\<forall>q<length pre. fenced_at tag (drop q s) = None"
  proof (intro allI impI)
    fix q assume q: "q < length pre"
    show "fenced_at tag (drop q s) = None"
    proof (cases "fenced_at tag (drop q s)")
      case None
      then show ?thesis .
    next
      case (Some g')
      from fenced_at_SomeD[OF this] obtain post' where
        "drop q s = fence @ tag @ g' @ fence @ post'" by blast
      then have "s = take q s @ fence @ tag @ g' @ fence @ post'"
        by (metis append_take_drop_id)
      with least have "length pre \<le> length (take q s)" by blast
      with q show ?thesis by simp
    qed
  qed
  have "length pre \<le> length s" using s by simp
  with 1 2 show "regex_search (fenced_at tag) s = Some g"
    unfolding regex_search_Some_iff by blast
qed

lemma fenced_search_None_iff:
  "regex_search (fenced_at tag) s = None \<longleftrightarrow> \<not> has_fenced_block tag s"
proof
  assume n: "regex_search (fenced_at tag) s = None"
  show "\<not> has_fenced_block tag s"
  proof
    assume "has_fenced_block tag s"
    then obtain pre g post where s: "s = pre @ fence @ tag @ g @ fence @ post"
      unfolding has_fenced_block_def by blast
    then have "length pre \<le> length s" by simp
    with n have "fenced_at tag (drop (length pre) s) = None"
      unfolding regex_search_None_iff by blast
    from fenced_at_NoneD[OF this, of g post] s show False by simp
  qed
next
  assume h: "\<not> has_fenced_block tag s"
  show "regex_search (fenced_at tag) s = None"
  proof (cases "regex_search (fenced_at tag) s")
    case None
    then show ?thesis .
  next
    case (Some g)
    then have "first_fenced_block tag s g" by (simp add: fenced_search_Some_iff)
    then have "has_fenced_block tag s"
      unfolding first_fenced_block_def has_fenced_block_def by blast
    with h show ?thesis by simp
  qed
qed

subsection \<open>The div with the class marker\<close>

lemma takeWhile_upto: "x \<notin> set xs \<Longrightarrow> takeWhile (\<lambda>c. c \<noteq> x) (xs @ x # ys) = xs"
  by (induction xs) auto

lemma dropWhile_upto: "x \<notin> set xs \<Longrightarrow> dropWhile (\<lambda>c. c \<noteq> x) (xs @ x # ys) = x # ys"
  by (induction xs) auto

lemma length_div_open: "length (js ''<div'') = 4"
  by (simp add: js_def)

lemma diagram_div_at_tag:
  assumes "0x3E \<notin> set attrs"
  shows "diagram_div_at (js ''<div'' @ attrs @ [0x3E] @ rest) =
     (if sublist class_marker attrs
      then map_option (\<lambda>(body, _). js ''<div'' @ attrs @ [0x3E] @ body @ js ''</div>'')
             (lazy_until (js ''</div>'') rest)
      else None)"
proof -
  have d: "drop 4 (js ''<div'' @ attrs @ [0x3E] @ rest) = attrs @ 0x3E # rest"
    using length_div_open by simp
  show ?thesis
    unfolding diagram_div_at_def d Let_def takeWhile_upto[OF assms] dropWhile_upto[OF assms]
    by (auto split: option.splits)
qed

lemma diagram_div_at_shape:
  assumes "diagram_div_at t = Some el"
  shows "\<exists>attrs rest. t = js ''<div'' @ attrs @ [0x3E] @ rest \<and> 0x3E \<notin> set attrs"
proof -
  let ?r = "drop 4 t"
  from assms have pre: "prefix (js ''<div'') t"
    and ne: "dropWhile (\<lambda>c. c \<noteq> 0x3E) ?r \<noteq> []"
    by (auto simp: diagram_div_at_def Let_def split: if_splits)
  from pre have t: "t = js ''<div'' @ ?r"
    using length_div_open by (auto simp: prefix_def)
  from ne have "hd (dropWhile (\<lambda>c. c \<noteq> 0x3E) ?r) = 0x3E"
    using hd_dropWhile[of "\<lambda>c. c \<noteq> 0x3E" ?r] by simp
  with ne have "dropWhile (\<lambda>c. c \<noteq> 0x3E) ?r = 0x3E # tl (dropWhile (\<lambda>c. c \<noteq> 0x3E) ?r)"
    by (cases "dropWhile (\<lambda>c. c \<noteq> 0x3E) ?r") auto
  then have "?r = takeWhile (\<lambda>c. c \<noteq> 0x3E) ?r @ [0x3E] @ tl (dropWhile (\<lambda>c. c \<noteq> 0x3E) ?r)"
    by (metis append_Cons append_Nil takeWhile_dropWhile_id)
  moreover have "0x3E \<notin> set (takeWhile (\<lambda>c. c \<noteq> 0x3E) ?r)"
    by (auto dest: set_takeWhileD)
  ultimately show ?thesis using t by metis
qed

lemma tag_unique:
  assumes "attrs @ [x] @ rest = attrs' @ [x] @ rest'" "x \<notin> set attrs" "x \<notin> set attrs'"
  shows "attrs = attrs' \<and> rest = rest'"
proof -
  have "takeWhile (\<lambda>c. c \<noteq> x) (attrs @ x # rest) = takeWhile (\<lambda>c. c \<noteq> x) (attrs' @ x # rest')"
    using assms(1) by simp
  then have "attrs = attrs'"
    using assms(2,3) by (simp add: takeWhile_upto)
  with assms(1) show ?thesis by simp
qed

lemma diagram_div_at_SomeD:
  assumes "diagram_div_at t = Some el"
  shows "\<exists>attrs body post.
           t = el @ post \<and> el = js ''<div'' @ attrs @ [0x3E] @ body @ js ''</div>'' \<and>
           0x3E \<notin> set attrs \<and> sublist class_marker attrs \<and>
           (\<forall>attrs' body' post'.
              t = js ''<div'' @ attrs' @ [0x3E] @ body' @ js ''</div>'' @ post' \<and>
              0x3E \<notin> set attrs' \<longrightarrow> length body \<le> length body')"
proof -
  from diagram_div_at_shape[OF assms] obtain attrs rest where
    t: "t = js ''<div'' @ attrs @ [0x3E] @ rest" and a: "0x3E \<notin> set attrs"
    by blast
  from assms have c: "sublist class_marker attrs"
    unfolding t diagram_div_at_tag[OF a] by (auto split: if_splits)
  with assms obtain body post where l: "lazy_until (js ''</div>'') rest = Some (body, post)"
    and el: "el = js ''<div'' @ attrs @ [0x3E] @ body @ js ''</div>''"
    unfolding t diagram_div_at_tag[OF a] by auto
  from lazy_until_Some[OF l] have r: "rest = body @ js ''</div>'' @ post"
    and least: "\<forall>g' r'. rest = g' @ js ''</div>'' @ r' \<longrightarrow> length body \<le> length g'"
    by blast+
  have "\<forall>attrs' body' post'.
              t = js ''<div'' @ attrs' @ [0x3E] @ body' @ js ''</div>'' @ post' \<and>
              0x3E \<notin> set attrs' \<longrightarrow> length body \<le> length body'"
  proof (intro allI impI)
    fix attrs' body' post'
    assume h: "t = js ''<div'' @ attrs' @ [0x3E] @ body' @ js ''</div>'' @ post' \<and>
              0x3E \<notin> set attrs'"
    with t have "attrs @ [0x3E] @ rest = attrs' @ [0x3E] @ (body' @ js ''</div>'' @ post')"
      by simp
    from tag_unique[OF this a] h have "rest = body' @ js ''</div>'' @ post'" by blast
    with least show "length body \<le> length body'" by blast
  qed
  with t r el a c show ?thesis by auto
qed

lemma diagram_div_at_NoneD:
  assumes "diagram_div_at t = None"
    and "t = js ''<div'' @ attrs @ [0x3E] @ body @ js ''</div>'' @ post"
    and "0x3E \<notin> set attrs" and "sublist class_marker attrs"
  shows False
proof -
  from assms have "lazy_until (js ''</div>'') (body @ js ''</div>'' @ post) = None"
    using diagram_div_at_tag[OF assms(3), of "body @ js ''</div>'' @ post"] by simp
  from lazy_until_None[OF this] show False by blast
qed

lemma first_marked_div_iff:
  "regex_search diagram_div_at s = Some el \<longleftrightarrow> first_marked_div s el"
proof
  assume "regex_search diagram_div_at s = Some el"
  then obtain p where p: "p \<le> length s" "diagram_div_at (drop p s) = Some el"
    "\<forall>q<p. diagram_div_at (drop q s) = None"
    unfolding regex_search_Some_iff by blast
  from diagram_div_at_SomeD[OF p(2)] obtain attrs body post where
    d: "drop p s = el @ post" and el: "el = js ''<div'' @ attrs @ [0x3E] @ body @ js ''</div>''"
    and a: "0x3E \<notin> set attrs" and c: "sublist class_marker attrs"
    and least: "\<forall>attrs' body' post'.
              drop p s = js ''<div'' @ attrs' @ [0x3E] @ body' @ js ''</div>'' @ post' \<and>
              0x3E \<notin> set attrs' \<longrightarrow> length body \<le> length body'"
    by blast
  have s: "s = take p s @ el @ post"
    using d by (metis append_take_drop_id)
  have lp: "length (take p s) = p" using p(1) by simp
  have "\<forall>pre' attrs' body' post'.
           s = pre' @ js ''<div'' @ attrs' @ [0x3E] @ body' @ js ''</div>'' @ post' \<and>
           0x3E \<notin> set attrs' \<and> sublist class_marker attrs' \<longrightarrow>
           length (take p s) \<le> length pre' \<and>
           (length pre' = length (take p s) \<longrightarrow> length body \<le> length body')"
  proof (intro allI impI)
    fix pre' attrs' body' post'
    assume h: "s = pre' @ js ''<div'' @ attrs' @ [0x3E] @ body' @ js ''</div>'' @ post' \<and>
           0x3E \<notin> set attrs' \<and> sublist class_marker attrs'"
    then have dq: "drop (length pre') s =
        js ''<div'' @ attrs' @ [0x3E] @ body' @ js ''</div>'' @ post'" by simp
    have "\<not> length pre' < p"
    proof
      assume "length pre' < p"
      with p(3) have "diagram_div_at (drop (length pre') s) = None" by blast
      from diagram_div_at_NoneD[OF this dq] h show False by blast
    qed
    then have 1: "length (take p s) \<le> length pre'" using lp by simp
    have 2: "length pre' = length (take p s) \<longrightarrow> length body \<le> length body'"
    proof
      assume "length pre' = length (take p s)"
      then have "length pre' = p" using lp by simp
      with dq have "drop p s = js ''<div'' @ attrs' @ [0x3E] @ body' @ js ''</div>'' @ post'"
        by simp
      with least h show "length body \<le> length body'" by blast
    qed
    from 1 2 show "length (take p s) \<le> length pre' \<and>
           (length pre' = length (take p s) \<longrightarrow> length body \<le> length body')" ..
  qed
  with s el a c show "first_marked_div s el"
    unfolding first_marked_div_def by blast
next
  assume "first_marked_div s el"
  then obtain pre attrs body post where s: "s = pre @ el @ post"
    and el: "el = js ''<div'' @ attrs @ [0x3E] @ body @ js ''</div>''"
    and a: "0x3E \<notin> set attrs" and c: "sublist class_marker attrs"
    and least: "\<forall>pre' attrs' body' post'.
           s = pre' @ js ''<div'' @ attrs' @ [0x3E] @ body' @ js ''</div>'' @ post' \<and>
           0x3E \<notin> set attrs' \<and> sublist class_marker attrs' \<longrightarrow>
           length pre \<le> length pre' \<and>
           (length pre' = length pre \<longrightarrow> length body \<le> length body')"
    unfolding first_marked_div_def by blast
  have d: "drop (length pre) s = js ''<div'' @ attrs @ [0x3E] @ body @ js ''</div>'' @ post"
    using s el by simp
  have 1: "diagram_div_at (drop (length pre) s) = Some el"
  proof (cases "diagram_div_at (drop (length pre) s)")
    case None
    from diagram_div_at_NoneD[OF None d a c] show ?thesis ..
  next
    case (Some el0)
    from diagram_div_at_SomeD[OF Some] obtain attrs0 body0 post0 where
      d0: "drop (length pre) s = el0 @ post0"
      and el0: "el0 = js ''<div'' @ attrs0 @ [0x3E] @ body0 @ js ''</div>''"
      and a0: "0x3E \<notin> set attrs0" and c0: "sublist class_marker attrs0"
      and least0: "\<forall>attrs' body' post'.
              drop (length pre) s = js ''<div'' @ attrs' @ [0x3E] @ body' @ js ''</div>'' @ post' \<and>
              0x3E \<notin> set attrs' \<longrightarrow> length body0 \<le> length body'"
      by blast
    from d d0 el0 have e: "attrs @ [0x3E] @ (body @ js ''</div>'' @ post) =
        attrs0 @ [0x3E] @ (body0 @ js ''</div>'' @ post0)" by simp
    from tag_unique[OF e a a0] have at: "attrs = attrs0"
      and b: "body @ js ''</div>'' @ post = body0 @ js ''</div>'' @ post0" by blast+
    from least0 d a have "length body0 \<le> length body" by blast
    moreover have "s = pre @ js ''<div'' @ attrs0 @ [0x3E] @ body0 @ js ''</div>'' @ post0"
      using d0 el0 by (metis append_take_drop_id append_assoc s append_eq_conv_conj)
    with least a0 c0 have "length body \<le> length body0" by blast
    ultimately have "length body = length body0" by simp
    with b have "body = body0" by simp
    with at el el0 Some show ?thesis by simp
  qed
  have 2: "\<forall>q<length pre. diagram_div_at (drop q s) = None"
  proof (intro allI impI)
    fix q assume q: "q < length pre"
    show "diagram_div_at (drop q s) = None"
    proof (cases "diagram_div_at (drop q s)")
      case None
      then show ?thesis .
    next
      case (Some el')
      from diagram_div_at_SomeD[OF this] obtain attrs' body' post' where
        "drop q s = el' @ post'" "el' = js ''<div'' @ attrs' @ [0x3E] @ body' @ js ''</div>''"
        "0x3E \<notin> set attrs'" "sublist class_marker attrs'" by blast
      then have "s = take q s @ js ''<div'' @ attrs' @ [0x3E] @ body' @ js ''</div>'' @ post' \<and>
          0x3E \<notin> set attrs' \<and> sublist class_marker attrs'"
        by (metis append_take_drop_id append_assoc)
      with least have "length pre \<le> length (take q s)" by blast
      with q show ?thesis by simp
    qed
  qed
  have "length pre \<le> length s" using s by simp
  with 1 2 show "regex_search diagram_div_at s = Some el"
    unfolding regex_search_Some_iff by blast
qed

lemma no_marked_div_iff:
  "regex_search diagram_div_at s = None \<longleftrightarrow> \<not> has_marked_div s"
proof
  assume n: "regex_search diagram_div_at s = None"
  show "\<not> has_marked_div s"
  proof
    assume "has_marked_div s"
    then obtain pre attrs body post where
      s: "s = pre @ js ''<div'' @ attrs @ [0x3E] @ body @ js ''</div>'' @ post"
      and a: "0x3E \<notin> set attrs" and c: "sublist class_marker attrs"
      unfolding has_marked_div_def by blast
    then have "length pre \<le> length s" by simp
    with n have "diagram_div_at (drop (length pre) s) = None"
      unfolding regex_search_None_iff by blast
    moreover have "drop (length pre) s = js ''<div'' @ attrs @ [0x3E] @ body @ js ''</div>'' @ post"
      using s by simp
    ultimately show False using diagram_div_at_NoneD a c by blast
  qed
next
  assume h: "\<not> has_marked_div s"
  show "regex_search diagram_div_at s = None"
  proof (cases "regex_search diagram_div_at s")
    case None
    then show ?thesis .
  next
    case (Some el)
    then have "first_marked_div s el" by (simp add: first_marked_div_iff)
    then have "has_marked_div s"
      unfolding first_marked_div_def has_marked_div_def
      by (metis append_assoc)
    with h show ?thesis by simp
  qed
qed

section \<open>The summary\<close>

lemma hd_split_nl: "hd (split_nl s) = takeWhile (\<lambda>c. c \<noteq> 0x0A) s"
  by (induction s) auto

text \<open>
  Claim C7 says that without a fenced text block the summary is the first line of the
  raw text, and the literal \<open>Technical summary\<close> when the raw text is empty. The
  source writes \<open>content.split('\n')[0] || "Technical summary"\<close>, and the empty
  string is falsy: for a raw text that is not empty and begins with a line feed, the
  first line is empty and the summary is the literal.
\<close>

theorem summary_of_empty_first_line_counterexample:
  "\<not> has_fenced_block (js ''text'') (js ''\<newline>abc'') \<and>
   js ''\<newline>abc'' \<noteq> [] \<and>
   hd (split_nl (js ''\<newline>abc'')) = [] \<and>
   extractTextSummary (js ''\<newline>abc'') = js ''Technical summary''"
proof -
  have n: "regex_search (fenced_at (js ''text'')) (js ''\<newline>abc'') = None"
    by (simp add: fenced_at_def fence_def js_def)
  then have "\<not> has_fenced_block (js ''text'') (js ''\<newline>abc'')"
    by (simp add: fenced_search_None_iff)
  moreover have "hd (split_nl (js ''\<newline>abc'')) = []"
    by (simp add: js_def)
  moreover have "js ''\<newline>abc'' \<noteq> []"
    by (simp add: js_def)
  ultimately show ?thesis
    by (simp add: extractTextSummary_def n)
qed

text \<open>
  Claim C7 as amended. If the raw text contains a fenced block tagged \<open>text\<close>, the
  summary is the trimmed interior of the first such block. Otherwise the summary is the
  first line of the raw text when that line is not empty, and the literal
  \<open>Technical summary\<close> when the first line is empty, as it is for the empty raw
  text.
\<close>

theorem summary_extraction:
  "(first_fenced_block (js ''text'') rawText g \<longrightarrow> extractTextSummary rawText = trim g) \<and>
   (has_fenced_block (js ''text'') rawText \<longrightarrow> (\<exists>g. first_fenced_block (js ''text'') rawText g)) \<and>
   (\<not> has_fenced_block (js ''text'') rawText \<and> takeWhile (\<lambda>c. c \<noteq> 0x0A) rawText \<noteq> [] \<longrightarrow>
      extractTextSummary rawText = takeWhile (\<lambda>c. c \<noteq> 0x0A) rawText) \<and>
   (\<not> has_fenced_block (js ''text'') rawText \<and> takeWhile (\<lambda>c. c \<noteq> 0x0A) rawText = [] \<longrightarrow>
      extractTextSummary rawText = js ''Technical summary'') \<and>
   extractTextSummary [] = js ''Technical summary''"
proof (intro conjI impI)
  assume "first_fenced_block (js ''text'') rawText g"
  then have "regex_search (fenced_at (js ''text'')) rawText = Some g"
    by (simp add: fenced_search_Some_iff)
  then show "extractTextSummary rawText = trim g"
    by (simp add: extractTextSummary_def)
next
  assume "has_fenced_block (js ''text'') rawText"
  then have "regex_search (fenced_at (js ''text'')) rawText \<noteq> None"
    by (simp add: fenced_search_None_iff)
  then show "\<exists>g. first_fenced_block (js ''text'') rawText g"
    by (auto simp: fenced_search_Some_iff[symmetric])
next
  assume "\<not> has_fenced_block (js ''text'') rawText \<and> takeWhile (\<lambda>c. c \<noteq> 0x0A) rawText \<noteq> []"
  then show "extractTextSummary rawText = takeWhile (\<lambda>c. c \<noteq> 0x0A) rawText"
    by (simp add: extractTextSummary_def fenced_search_None_iff[symmetric] hd_split_nl)
next
  assume "\<not> has_fenced_block (js ''text'') rawText \<and> takeWhile (\<lambda>c. c \<noteq> 0x0A) rawText = []"
  then show "extractTextSummary rawText = js ''Technical summary''"
    by (simp add: extractTextSummary_def fenced_search_None_iff[symmetric] hd_split_nl)
next
  show "extractTextSummary [] = js ''Technical summary''"
    by (simp add: extractTextSummary_def fenced_at_def fence_def js_def)
qed

theorem summary_extraction_witness:
  "extractTextSummary (js ''a```text b ```c'') = js ''b'' \<and>
   extractTextSummary (js ''ab\<newline>cd'') = js ''ab'' \<and>
   extractTextSummary (js ''\<newline>cd'') = js ''Technical summary''"
proof -
  have "regex_search (fenced_at (js ''text'')) (js ''a```text b ```c'') = Some (js '' b '')"
    by (simp add: fenced_at_def fence_def js_def)
  then have f: "first_fenced_block (js ''text'') (js ''a```text b ```c'') (js '' b '')"
    by (simp add: fenced_search_Some_iff)
  have "regex_search (fenced_at (js ''text'')) (js ''ab\<newline>cd'') = None"
    by (simp add: fenced_at_def fence_def js_def)
  then have n2: "\<not> has_fenced_block (js ''text'') (js ''ab\<newline>cd'')"
    by (simp add: fenced_search_None_iff)
  have "regex_search (fenced_at (js ''text'')) (js ''\<newline>cd'') = None"
    by (simp add: fenced_at_def fence_def js_def)
  then have n3: "\<not> has_fenced_block (js ''text'') (js ''\<newline>cd'')"
    by (simp add: fenced_search_None_iff)
  have l2: "takeWhile (\<lambda>c. c \<noteq> 0x0A) (js ''ab\<newline>cd'') = js ''ab''"
    and l3: "takeWhile (\<lambda>c. c \<noteq> 0x0A) (js ''\<newline>cd'') = []"
    and ne: "js ''ab'' \<noteq> []"
    and t: "trim (js '' b '') = js ''b''"
    by (simp_all add: js_def trim_def isWhiteSpace_def isLineTerminator_def)
  from summary_extraction[of "js ''a```text b ```c''" "js '' b ''"] f t
  have 1: "extractTextSummary (js ''a```text b ```c'') = js ''b''" by simp
  from summary_extraction[of "js ''ab\<newline>cd''" "[]"] n2 l2 ne
  have 2: "extractTextSummary (js ''ab\<newline>cd'') = js ''ab''" by simp
  from summary_extraction[of "js ''\<newline>cd''" "[]"] n3 l3
  have 3: "extractTextSummary (js ''\<newline>cd'') = js ''Technical summary''" by simp
  from 1 2 3 show ?thesis by blast
qed

section \<open>The diagram\<close>

text \<open>
  Claim C5 says that, without a fenced \<open>html\<close> block, the diagram is the first
  complete element carrying the class marker. The pattern of the source ends its lazy
  group at the first \<open></div>\<close>, so for a marked div with a div inside the result
  stops at the inner closing tag: it opens two divs and closes one. The pattern also
  asks for a \<open>div\<close> and for the literal attribute \<open>class="architecture-diagram"\<close>:
  a \<open>section\<close> with that class, or a div whose class list holds a second class, gives
  \<open>null\<close>.
\<close>

theorem nested_div_truncated_counterexample:
  \<open>extractHtmlContent (js ''<div class="architecture-diagram"><div>x</div>y</div>'') =
     Some (js ''<div class="architecture-diagram"><div>x</div>'') \<and>
   occurrences (js ''<div'') (js ''<div class="architecture-diagram"><div>x</div>'') = 2 \<and>
   occurrences (js ''</div>'') (js ''<div class="architecture-diagram"><div>x</div>'') = 1 \<and>
   extractHtmlContent (js ''<section class="architecture-diagram">x</section>'') = None \<and>
   extractHtmlContent (js ''<div class="architecture-diagram dark">x</div>'') = None\<close>
proof -
  have 1: \<open>extractHtmlContent (js ''<div class="architecture-diagram"><div>x</div>y</div>'') =
     Some (js ''<div class="architecture-diagram"><div>x</div>'')\<close>
    by (simp add: extractHtmlContent_def fenced_at_def fence_def diagram_div_at_def
        class_marker_def js_def sublist_code)
  have 2: \<open>occurrences (js ''<div'') (js ''<div class="architecture-diagram"><div>x</div>'') = 2\<close>
    by (simp add: js_def)
  have 3: \<open>occurrences (js ''</div>'') (js ''<div class="architecture-diagram"><div>x</div>'') = 1\<close>
    by (simp add: js_def)
  have 4: \<open>extractHtmlContent (js ''<section class="architecture-diagram">x</section>'') = None\<close>
    by (simp add: extractHtmlContent_def fenced_at_def fence_def diagram_div_at_def
        class_marker_def js_def sublist_code)
  have 5: \<open>extractHtmlContent (js ''<div class="architecture-diagram dark">x</div>'') = None\<close>
    by (simp add: extractHtmlContent_def fenced_at_def fence_def diagram_div_at_def
        class_marker_def js_def sublist_code)
  from 1 2 3 4 5 show ?thesis by blast
qed

text \<open>
  Claim C5 as amended. If the raw text contains a fenced block tagged \<open>html\<close>, the
  diagram is the trimmed interior of the first such block. Otherwise, if it contains a
  marked div (a \<open>div\<close> whose opening tag holds the literal
  \<open>class="architecture-diagram"\<close>, followed somewhere by \<open></div>\<close>), the diagram is
  the first one: the text from \<open><div\<close> to the first \<open></div>\<close> after its opening
  tag, tags included. Otherwise the diagram is \<open>null\<close>. In each case
  \<open>parseAIResponse\<close> returns its object for a text that is not empty: a \<open>null\<close>
  diagram is no error.
\<close>

theorem diagram_extraction:
  "(first_fenced_block (js ''html'') rawText g \<longrightarrow> extractHtmlContent rawText = Some (trim g)) \<and>
   (has_fenced_block (js ''html'') rawText \<longrightarrow> (\<exists>g. first_fenced_block (js ''html'') rawText g)) \<and>
   (\<not> has_fenced_block (js ''html'') rawText \<and> first_marked_div rawText el \<longrightarrow>
      extractHtmlContent rawText = Some el) \<and>
   (\<not> has_fenced_block (js ''html'') rawText \<and> has_marked_div rawText \<longrightarrow>
      (\<exists>el. first_marked_div rawText el)) \<and>
   (\<not> has_fenced_block (js ''html'') rawText \<and> \<not> has_marked_div rawText \<longrightarrow>
      extractHtmlContent rawText = None) \<and>
   (rawText \<noteq> [] \<longrightarrow>
      parseAIResponse (Data (Text rawText)) =
        Inr \<lparr>rawContent = rawText, diagram = extractHtmlContent rawText,
             parsed_summary = extractTextSummary rawText\<rparr>)"
proof (intro conjI impI)
  assume "first_fenced_block (js ''html'') rawText g"
  then have "regex_search (fenced_at (js ''html'')) rawText = Some g"
    by (simp add: fenced_search_Some_iff)
  then show "extractHtmlContent rawText = Some (trim g)"
    by (simp add: extractHtmlContent_def)
next
  assume "has_fenced_block (js ''html'') rawText"
  then have "regex_search (fenced_at (js ''html'')) rawText \<noteq> None"
    by (simp add: fenced_search_None_iff)
  then show "\<exists>g. first_fenced_block (js ''html'') rawText g"
    by (auto simp: fenced_search_Some_iff[symmetric])
next
  assume "\<not> has_fenced_block (js ''html'') rawText \<and> first_marked_div rawText el"
  then have "regex_search (fenced_at (js ''html'')) rawText = None"
    and "regex_search diagram_div_at rawText = Some el"
    by (simp_all add: fenced_search_None_iff first_marked_div_iff)
  then show "extractHtmlContent rawText = Some el"
    by (simp add: extractHtmlContent_def)
next
  assume "\<not> has_fenced_block (js ''html'') rawText \<and> has_marked_div rawText"
  then have "regex_search diagram_div_at rawText \<noteq> None"
    by (simp add: no_marked_div_iff)
  then show "\<exists>el. first_marked_div rawText el"
    by (auto simp: first_marked_div_iff[symmetric])
next
  assume "\<not> has_fenced_block (js ''html'') rawText \<and> \<not> has_marked_div rawText"
  then have "regex_search (fenced_at (js ''html'')) rawText = None"
    and "regex_search diagram_div_at rawText = None"
    by (simp_all add: fenced_search_None_iff no_marked_div_iff)
  then show "extractHtmlContent rawText = None"
    by (simp add: extractHtmlContent_def)
next
  assume "rawText \<noteq> []"
  then show "parseAIResponse (Data (Text rawText)) =
        Inr \<lparr>rawContent = rawText, diagram = extractHtmlContent rawText,
             parsed_summary = extractTextSummary rawText\<rparr>"
    by (simp add: parseAIResponse_def)
qed

theorem diagram_extraction_witness:
  \<open>extractHtmlContent (js ''a```html <p>x</p> ```b'') = Some (js ''<p>x</p>'') \<and>
   extractHtmlContent (js ''a<div class="architecture-diagram">x</div>b'') =
     Some (js ''<div class="architecture-diagram">x</div>'') \<and>
   extractHtmlContent (js ''<div class="architecture-diagram"><div>x</div>y</div>'') =
     Some (js ''<div class="architecture-diagram"><div>x</div>'') \<and>
   extractHtmlContent (js ''hello'') = None \<and>
   parseAIResponse (Data (Text (js ''hello''))) =
     Inr \<lparr>rawContent = js ''hello'', diagram = None,
          parsed_summary = extractTextSummary (js ''hello'')\<rparr>\<close>
proof -
  have "regex_search (fenced_at (js ''html'')) (js ''a```html <p>x</p> ```b'') =
      Some (js '' <p>x</p> '')"
    by (simp add: fenced_at_def fence_def js_def)
  then have f: "first_fenced_block (js ''html'') (js ''a```html <p>x</p> ```b'') (js '' <p>x</p> '')"
    by (simp add: fenced_search_Some_iff)
  have t: "trim (js '' <p>x</p> '') = js ''<p>x</p>''"
    by (simp add: js_def trim_def isWhiteSpace_def isLineTerminator_def)
  have \<open>regex_search (fenced_at (js ''html'')) (js ''a<div class="architecture-diagram">x</div>b'')
      = None\<close>
    by (simp add: fenced_at_def fence_def js_def)
  then have n2: \<open>\<not> has_fenced_block (js ''html'') (js ''a<div class="architecture-diagram">x</div>b'')\<close>
    by (simp add: fenced_search_None_iff)
  have \<open>regex_search diagram_div_at (js ''a<div class="architecture-diagram">x</div>b'') =
      Some (js ''<div class="architecture-diagram">x</div>'')\<close>
    by (simp add: diagram_div_at_def class_marker_def js_def sublist_code)
  then have e2: \<open>first_marked_div (js ''a<div class="architecture-diagram">x</div>b'')
      (js ''<div class="architecture-diagram">x</div>'')\<close>
    by (simp add: first_marked_div_iff)
  have \<open>regex_search (fenced_at (js ''html''))
      (js ''<div class="architecture-diagram"><div>x</div>y</div>'') = None\<close>
    by (simp add: fenced_at_def fence_def js_def)
  then have n5: \<open>\<not> has_fenced_block (js ''html'')
      (js ''<div class="architecture-diagram"><div>x</div>y</div>'')\<close>
    by (simp add: fenced_search_None_iff)
  have \<open>regex_search diagram_div_at (js ''<div class="architecture-diagram"><div>x</div>y</div>'') =
      Some (js ''<div class="architecture-diagram"><div>x</div>'')\<close>
    by (simp add: diagram_div_at_def class_marker_def js_def sublist_code)
  then have e5: \<open>first_marked_div (js ''<div class="architecture-diagram"><div>x</div>y</div>'')
      (js ''<div class="architecture-diagram"><div>x</div>'')\<close>
    by (simp add: first_marked_div_iff)
  have "regex_search (fenced_at (js ''html'')) (js ''hello'') = None"
    by (simp add: fenced_at_def fence_def js_def)
  then have n3: "\<not> has_fenced_block (js ''html'') (js ''hello'')"
    by (simp add: fenced_search_None_iff)
  have "regex_search diagram_div_at (js ''hello'') = None"
    by (simp add: diagram_div_at_def js_def)
  then have d3: "\<not> has_marked_div (js ''hello'')"
    by (simp add: no_marked_div_iff)
  have ne: "js ''hello'' \<noteq> []" by (simp add: js_def)
  from diagram_extraction[of "js ''a```html <p>x</p> ```b''" "js '' <p>x</p> ''"] f t
  have 1: "extractHtmlContent (js ''a```html <p>x</p> ```b'') = Some (js ''<p>x</p>'')"
    by simp
  from diagram_extraction[where rawText = \<open>js ''a<div class="architecture-diagram">x</div>b''\<close>
      and el = \<open>js ''<div class="architecture-diagram">x</div>''\<close>] n2 e2
  have 2: \<open>extractHtmlContent (js ''a<div class="architecture-diagram">x</div>b'') =
     Some (js ''<div class="architecture-diagram">x</div>'')\<close>
    by simp
  from diagram_extraction[where
      rawText = \<open>js ''<div class="architecture-diagram"><div>x</div>y</div>''\<close>
      and el = \<open>js ''<div class="architecture-diagram"><div>x</div>''\<close>] n5 e5
  have 5: \<open>extractHtmlContent (js ''<div class="architecture-diagram"><div>x</div>y</div>'') =
     Some (js ''<div class="architecture-diagram"><div>x</div>'')\<close>
    by simp
  from diagram_extraction[where rawText = "js ''hello''"] n3 d3 ne
  have 3: "extractHtmlContent (js ''hello'') = None"
    and 4: "parseAIResponse (Data (Text (js ''hello''))) =
     Inr \<lparr>rawContent = js ''hello'', diagram = extractHtmlContent (js ''hello''),
          parsed_summary = extractTextSummary (js ''hello'')\<rparr>"
    by simp_all
  from 1 2 3 4 5 show ?thesis by simp
qed

subsection \<open>The heading of the recommendations\<close>

lemma word_at_Some_iff:
  "word_at t = Some rest \<longleftrightarrow>
     (\<exists>w. t = w @ rest \<and> map canonicalize w = map canonicalize heading_word)"
proof
  assume "word_at t = Some rest"
  then have l: "length heading_word \<le> length t"
    and m: "map canonicalize (take (length heading_word) t) = map canonicalize heading_word"
    and r: "rest = drop (length heading_word) t"
    by (auto simp: word_at_def split: if_splits)
  from r have "t = take (length heading_word) t @ rest" by simp
  with m show "\<exists>w. t = w @ rest \<and> map canonicalize w = map canonicalize heading_word"
    by blast
next
  assume "\<exists>w. t = w @ rest \<and> map canonicalize w = map canonicalize heading_word"
  then obtain w where t: "t = w @ rest"
    and m: "map canonicalize w = map canonicalize heading_word" by blast
  from m have l: "length w = length heading_word"
    by (rule map_eq_imp_length_eq)
  with t m show "word_at t = Some rest"
    by (simp add: word_at_def)
qed

lemma word_at_None_iff:
  "word_at t = None \<longleftrightarrow>
     \<not> (\<exists>w rest. t = w @ rest \<and> map canonicalize w = map canonicalize heading_word)"
  using word_at_Some_iff[of t] by (cases "word_at t") auto

lemma first_heading_iff:
  "regex_search word_at s = Some rest \<longleftrightarrow> first_heading s rest"
proof
  assume "regex_search word_at s = Some rest"
  then obtain p where p: "p \<le> length s" "word_at (drop p s) = Some rest"
    "\<forall>q<p. word_at (drop q s) = None"
    unfolding regex_search_Some_iff by blast
  from p(2) obtain w where d: "drop p s = w @ rest"
    and m: "map canonicalize w = map canonicalize heading_word"
    unfolding word_at_Some_iff by blast
  have s: "s = take p s @ w @ rest"
    using d by (metis append_take_drop_id)
  have lp: "length (take p s) = p" using p(1) by simp
  have "\<forall>pre' w' rest'. s = pre' @ w' @ rest' \<and>
           map canonicalize w' = map canonicalize heading_word \<longrightarrow>
           length (take p s) \<le> length pre'"
  proof (intro allI impI)
    fix pre' w' rest'
    assume h: "s = pre' @ w' @ rest' \<and> map canonicalize w' = map canonicalize heading_word"
    then have dq: "drop (length pre') s = w' @ rest'" by simp
    have "\<not> length pre' < p"
    proof
      assume "length pre' < p"
      with p(3) have "word_at (drop (length pre') s) = None" by blast
      with dq h show False unfolding word_at_None_iff by blast
    qed
    then show "length (take p s) \<le> length pre'" using lp by simp
  qed
  with s m show "first_heading s rest"
    unfolding first_heading_def by blast
next
  assume "first_heading s rest"
  then obtain pre w where s: "s = pre @ w @ rest"
    and m: "map canonicalize w = map canonicalize heading_word"
    and least: "\<forall>pre' w' rest'. s = pre' @ w' @ rest' \<and>
           map canonicalize w' = map canonicalize heading_word \<longrightarrow> length pre \<le> length pre'"
    unfolding first_heading_def by blast
  have "drop (length pre) s = w @ rest" using s by simp
  with m have 1: "word_at (drop (length pre) s) = Some rest"
    unfolding word_at_Some_iff by blast
  have 2: "\<forall>q<length pre. word_at (drop q s) = None"
  proof (intro allI impI)
    fix q assume q: "q < length pre"
    show "word_at (drop q s) = None"
    proof (cases "word_at (drop q s)")
      case None
      then show ?thesis .
    next
      case (Some rest')
      then obtain w' where "drop q s = w' @ rest'"
        and m': "map canonicalize w' = map canonicalize heading_word"
        unfolding word_at_Some_iff by blast
      then have "s = take q s @ w' @ rest'"
        by (metis append_take_drop_id)
      with least m' have "length pre \<le> length (take q s)" by blast
      with q show ?thesis by simp
    qed
  qed
  have "length pre \<le> length s" using s by simp
  with 1 2 show "regex_search word_at s = Some rest"
    unfolding regex_search_Some_iff by blast
qed

lemma no_heading_iff:
  "regex_search word_at s = None \<longleftrightarrow> \<not> has_heading s"
proof
  assume n: "regex_search word_at s = None"
  show "\<not> has_heading s"
  proof
    assume "has_heading s"
    then obtain pre w post where s: "s = pre @ w @ post"
      and m: "map canonicalize w = map canonicalize heading_word"
      unfolding has_heading_def by blast
    then have "length pre \<le> length s" by simp
    with n have "word_at (drop (length pre) s) = None"
      unfolding regex_search_None_iff by blast
    moreover have "drop (length pre) s = w @ post" using s by simp
    ultimately show False using m unfolding word_at_None_iff by blast
  qed
next
  assume h: "\<not> has_heading s"
  show "regex_search word_at s = None"
  proof (cases "regex_search word_at s")
    case None
    then show ?thesis .
  next
    case (Some rest)
    then have "first_heading s rest" by (simp add: first_heading_iff)
    then have "has_heading s"
      unfolding first_heading_def has_heading_def by blast
    with h show ?thesis by simp
  qed
qed

lemma regex_search_map_option:
  "regex_search (\<lambda>t. map_option f (m t)) s = map_option f (regex_search m s)"
  by (induction s) (auto split: option.splits)

lemma heading_at_word_at:
  "heading_at t =
     map_option (\<lambda>r. lazy_until_blank (dropWhile (\<lambda>c. \<not> isLineTerminator c) r)) (word_at t)"
proof (cases "word_at t")
  case None
  then show ?thesis by (simp add: heading_at_def)
next
  case (Some r1)
  have "dropWhile (\<lambda>c. \<not> isLineTerminator c)
          (case r1 of [] \<Rightarrow> r1 | c # r \<Rightarrow> if canonicalize c = canonicalize 115 then r else r1)
        = dropWhile (\<lambda>c. \<not> isLineTerminator c) r1"
  proof (cases r1)
    case Nil
    then show ?thesis by simp
  next
    case (Cons c r)
    have "canonicalize c = canonicalize 115 \<Longrightarrow> \<not> isLineTerminator c"
      by (auto simp: canonicalize_def isLineTerminator_def split: if_splits)
    with Cons show ?thesis by auto
  qed
  with Some show ?thesis by (simp add: heading_at_def Let_def)
qed

lemma heading_search:
  "regex_search heading_at s =
     map_option (\<lambda>r. lazy_until_blank (dropWhile (\<lambda>c. \<not> isLineTerminator c) r))
       (regex_search word_at s)"
proof -
  have h: "heading_at =
      (\<lambda>t. map_option (\<lambda>r. lazy_until_blank (dropWhile (\<lambda>c. \<not> isLineTerminator c) r)) (word_at t))"
    by (rule ext) (rule heading_at_word_at)
  show ?thesis unfolding h by (rule regex_search_map_option)
qed

lemma lazy_until_blank_run:
  "\<exists>r. t = lazy_until_blank t @ r \<and> (r = [] \<or> prefix [0x0A, 0x0A] r) \<and>
     (\<forall>g' r'. t = g' @ r' \<and> (r' = [] \<or> prefix [0x0A, 0x0A] r') \<longrightarrow>
        length (lazy_until_blank t) \<le> length g')"
proof (induction t)
  case Nil
  then show ?case by simp
next
  case (Cons c cs)
  show ?case
  proof (cases "prefix [0x0A, 0x0A] (c # cs)")
    case True
    then have e: "lazy_until_blank (c # cs) = []" by simp
    show ?thesis
      unfolding e using True by (intro exI[of _ "c # cs"]) simp
  next
    case False
    from Cons.IH obtain r where r: "cs = lazy_until_blank cs @ r"
      "r = [] \<or> prefix [0x0A, 0x0A] r"
      and least: "\<forall>g' r'. cs = g' @ r' \<and> (r' = [] \<or> prefix [0x0A, 0x0A] r') \<longrightarrow>
        length (lazy_until_blank cs) \<le> length g'"
      by blast
    have "\<forall>g' r'. c # cs = g' @ r' \<and> (r' = [] \<or> prefix [0x0A, 0x0A] r') \<longrightarrow>
        length (lazy_until_blank (c # cs)) \<le> length g'"
    proof (intro allI impI)
      fix g' r' assume h: "c # cs = g' @ r' \<and> (r' = [] \<or> prefix [0x0A, 0x0A] r')"
      show "length (lazy_until_blank (c # cs)) \<le> length g'"
      proof (cases g')
        case Nil
        with h False show ?thesis by auto
      next
        case (Cons x g'')
        with h have "cs = g'' @ r' \<and> (r' = [] \<or> prefix [0x0A, 0x0A] r')" by simp
        with least have "length (lazy_until_blank cs) \<le> length g''" by blast
        with Cons False show ?thesis by simp
      qed
    qed
    moreover have "lazy_until_blank (c # cs) = c # lazy_until_blank cs"
      using False by simp
    then have "c # cs = lazy_until_blank (c # cs) @ r"
      using r(1) by simp
    ultimately show ?thesis using r(2) by blast
  qed
qed

lemma text_run_iff: "text_run t g \<longleftrightarrow> lazy_until_blank t = g"
proof
  assume "text_run t g"
  then obtain r where t: "t = g @ r" and e: "r = [] \<or> prefix [0x0A, 0x0A] r"
    and least: "\<forall>g' r'. t = g' @ r' \<and> (r' = [] \<or> prefix [0x0A, 0x0A] r') \<longrightarrow>
        length g \<le> length g'"
    unfolding text_run_def by blast
  from lazy_until_blank_run[of t] obtain r0 where t0: "t = lazy_until_blank t @ r0"
    and e0: "r0 = [] \<or> prefix [0x0A, 0x0A] r0"
    and least0: "\<forall>g' r'. t = g' @ r' \<and> (r' = [] \<or> prefix [0x0A, 0x0A] r') \<longrightarrow>
        length (lazy_until_blank t) \<le> length g'"
    by blast
  from least t0 e0 have "length g \<le> length (lazy_until_blank t)" by blast
  moreover from least0 t e have "length (lazy_until_blank t) \<le> length g" by blast
  ultimately have "length (lazy_until_blank t) = length g" by simp
  moreover from t t0 have "lazy_until_blank t @ r0 = g @ r" by simp
  ultimately show "lazy_until_blank t = g" by simp
next
  assume "lazy_until_blank t = g"
  with lazy_until_blank_run[of t] show "text_run t g"
    unfolding text_run_def by blast
qed

lemma extractRecommendations_heading:
  assumes "first_heading s rest"
    and "text_run (dropWhile (\<lambda>c. \<not> isLineTerminator c) rest) g"
  shows "extractRecommendations s =
     take 3 (map (\<lambda>l. trim (strip_dash l)) (filter (\<lambda>l. trim l \<noteq> []) (split_nl g)))"
proof -
  from assms(1) have "regex_search word_at s = Some rest"
    by (simp add: first_heading_iff)
  moreover from assms(2) have "lazy_until_blank (dropWhile (\<lambda>c. \<not> isLineTerminator c) rest) = g"
    by (simp add: text_run_iff)
  ultimately have "regex_search heading_at s = Some g"
    by (simp add: heading_search)
  then show ?thesis
    by (simp add: extractRecommendations_def)
qed

lemma extractRecommendations_no_heading:
  assumes "\<not> has_heading s"
  shows "extractRecommendations s = getDefaultRecommendations"
proof -
  from assms have "regex_search word_at s = None"
    by (simp add: no_heading_iff)
  then have "regex_search heading_at s = None"
    by (simp add: heading_search)
  then show ?thesis
    by (simp add: extractRecommendations_def)
qed

section \<open>The recommendations\<close>

text \<open>
  Claim C6 names the heading word \<open>Recommendations\<close>. The pattern of the source is
  \<open>/Recommandations?.*([\s\S]*?)(?=\n\n|$)/i\<close>, with the French spelling: under the
  heading \<open>Recommendations:\<close> the two listed items are not extracted and the default
  list is returned, while under \<open>Recommandations:\<close> they are extracted.
\<close>

theorem english_heading_counterexample:
  "extractRecommendations (js ''Recommendations:\<newline>- a\<newline>- b'') =
     getDefaultRecommendations \<and>
   extractRecommendations (js ''Recommendations:\<newline>- a\<newline>- b'') \<noteq> [js ''a'', js ''b''] \<and>
   extractRecommendations (js ''Recommandations:\<newline>- a\<newline>- b'') = [js ''a'', js ''b'']"
proof -
  have 1: "regex_search word_at (js ''Recommendations:\<newline>- a\<newline>- b'') = None"
    by (simp add: word_at_def heading_word_def canonicalize_def js_def)
  have 2: "regex_search word_at (js ''Recommandations:\<newline>- a\<newline>- b'') =
      Some (js ''s:\<newline>- a\<newline>- b'')"
    by (simp add: word_at_def heading_word_def canonicalize_def js_def)
  have 3: "lazy_until_blank (dropWhile (\<lambda>c. \<not> isLineTerminator c) (js ''s:\<newline>- a\<newline>- b''))
      = js ''\<newline>- a\<newline>- b''"
    by (simp add: isLineTerminator_def js_def)
  have 4: "take 3 (map (\<lambda>r. trim (strip_dash r))
      (filter (\<lambda>r. length (trim r) > 0) (split_nl (js ''\<newline>- a\<newline>- b'')))) = [js ''a'', js ''b'']"
    by (simp add: js_def trim_def strip_dash_def isWhiteSpace_def isLineTerminator_def)
  have a: "extractRecommendations (js ''Recommendations:\<newline>- a\<newline>- b'') =
     getDefaultRecommendations"
    by (simp add: extractRecommendations_def heading_search 1)
  have b: "extractRecommendations (js ''Recommandations:\<newline>- a\<newline>- b'') = [js ''a'', js ''b'']"
    by (simp only: extractRecommendations_def heading_search 2 3 4 option.map option.case)
  have c: "getDefaultRecommendations \<noteq> [js ''a'', js ''b'']"
    by (simp add: getDefaultRecommendations_def)
  from a b c show ?thesis by simp
qed

text \<open>
  Claim C6 as amended. The extraction looks, without regard to case, for the first
  occurrence of the word \<open>Recommandation\<close>; it skips the rest of that line, takes the
  run of text from there up to a blank line or the end of input, splits it at line feeds,
  drops the lines that are empty or white space only, removes a leading \<open>- \<close> from
  each line and trims it, and keeps at most the first three. When the word does not occur,
  the result is the list of the three default recommendations, in the order
  documentation, tests, optimisation, whatever else the text holds.
\<close>

theorem recommendations_extraction:
  "(first_heading rawText rest \<and>
    text_run (dropWhile (\<lambda>c. \<not> isLineTerminator c) rest) g \<longrightarrow>
      extractRecommendations rawText =
        take 3 (map (\<lambda>l. trim (strip_dash l)) (filter (\<lambda>l. trim l \<noteq> []) (split_nl g)))) \<and>
   (has_heading rawText \<longrightarrow> (\<exists>rest. first_heading rawText rest)) \<and>
   (\<exists>g. text_run t g) \<and>
   (\<not> has_heading rawText \<longrightarrow>
      extractRecommendations rawText =
        [js ''Documentation: Ajouter des commentaires pour les fonctions principales'',
         js ''Tests: Impl'' @ [0xE9] @ js ''menter des tests unitaires pour les modules critiques'',
         js ''Optimisation: Analyser les performances des composants cl'' @ [0xE9] @ js ''s''])"
proof (intro conjI impI)
  assume "first_heading rawText rest \<and>
    text_run (dropWhile (\<lambda>c. \<not> isLineTerminator c) rest) g"
  then show "extractRecommendations rawText =
        take 3 (map (\<lambda>l. trim (strip_dash l)) (filter (\<lambda>l. trim l \<noteq> []) (split_nl g)))"
    using extractRecommendations_heading by blast
next
  assume "has_heading rawText"
  then have "regex_search word_at rawText \<noteq> None"
    by (simp add: no_heading_iff)
  then show "\<exists>rest. first_heading rawText rest"
    by (auto simp: first_heading_iff[symmetric])
next
  show "\<exists>g. text_run t g"
    by (simp add: text_run_iff)
next
  assume "\<not> has_heading rawText"
  then show "extractRecommendations rawText =
        [js ''Documentation: Ajouter des commentaires pour les fonctions principales'',
         js ''Tests: Impl'' @ [0xE9] @ js ''menter des tests unitaires pour les modules critiques'',
         js ''Optimisation: Analyser les performances des composants cl'' @ [0xE9] @ js ''s'']"
    by (simp add: extractRecommendations_no_heading getDefaultRecommendations_def)
qed

theorem recommendations_extraction_witness:
  "extractRecommendations
     (js ''## recommandations :\<newline>- a\<newline>  \<newline>-  b \<newline>c\<newline>d\<newline>\<newline>x'') =
     [js ''a'', js ''b'', js ''c''] \<and>
   extractRecommendations (js ''```html<p>x</p>```'') =
     [js ''Documentation: Ajouter des commentaires pour les fonctions principales'',
      js ''Tests: Impl'' @ [0xE9] @ js ''menter des tests unitaires pour les modules critiques'',
      js ''Optimisation: Analyser les performances des composants cl'' @ [0xE9] @ js ''s'']"
proof -
  let ?s = "js ''## recommandations :\<newline>- a\<newline>  \<newline>-  b \<newline>c\<newline>d\<newline>\<newline>x''"
  let ?rest = "js ''s :\<newline>- a\<newline>  \<newline>-  b \<newline>c\<newline>d\<newline>\<newline>x''"
  let ?g = "js ''\<newline>- a\<newline>  \<newline>-  b \<newline>c\<newline>d''"
  have "regex_search word_at ?s = Some ?rest"
    by (simp add: word_at_def heading_word_def canonicalize_def js_def)
  then have h: "first_heading ?s ?rest"
    by (simp add: first_heading_iff)
  have "lazy_until_blank (dropWhile (\<lambda>c. \<not> isLineTerminator c) ?rest) = ?g"
    by (simp add: isLineTerminator_def js_def)
  then have r: "text_run (dropWhile (\<lambda>c. \<not> isLineTerminator c) ?rest) ?g"
    by (simp add: text_run_iff)
  have v: "take 3 (map (\<lambda>l. trim (strip_dash l)) (filter (\<lambda>l. trim l \<noteq> []) (split_nl ?g))) =
      [js ''a'', js ''b'', js ''c'']"
    by (simp add: js_def trim_def strip_dash_def isWhiteSpace_def isLineTerminator_def)
  have "regex_search word_at (js ''```html<p>x</p>```'') = None"
    by (simp add: word_at_def heading_word_def canonicalize_def js_def)
  then have n: "\<not> has_heading (js ''```html<p>x</p>```'')"
    by (simp add: no_heading_iff)
  from recommendations_extraction[where rawText = ?s and rest = ?rest and g = ?g] h r
  have "extractRecommendations ?s =
      take 3 (map (\<lambda>l. trim (strip_dash l)) (filter (\<lambda>l. trim l \<noteq> []) (split_nl ?g)))"
    by blast
  then have 1: "extractRecommendations ?s = [js ''a'', js ''b'', js ''c'']"
    unfolding v .
  from recommendations_extraction[where rawText = "js ''```html<p>x</p>```''"] n
  have 2: "extractRecommendations (js ''```html<p>x</p>```'') =
     [js ''Documentation: Ajouter des commentaires pour les fonctions principales'',
      js ''Tests: Impl'' @ [0xE9] @ js ''menter des tests unitaires pour les modules critiques'',
      js ''Optimisation: Analyser les performances des composants cl'' @ [0xE9] @ js ''s'']"
    by blast
  from 1 2 show ?thesis ..
qed

text \<open>
  Claim C10 speaks of a recommendations heading with nothing under it. The heading that
  the source looks for is the French word \<open>Recommandation\<close>: under the heading
  \<open>Recommendations\<close>, followed by a blank line, the result is not the empty list but
  the three defaults.
\<close>

theorem english_heading_without_content_counterexample:
  "extractRecommendations (js ''## Recommendations\<newline>\<newline>- a'') = getDefaultRecommendations \<and>
   length (extractRecommendations (js ''## Recommendations\<newline>\<newline>- a'')) = 3 \<and>
   extractRecommendations (js ''## Recommendations\<newline>\<newline>- a'') \<noteq> []"
proof -
  have "regex_search word_at (js ''## Recommendations\<newline>\<newline>- a'') = None"
    by (simp add: word_at_def heading_word_def canonicalize_def js_def)
  then have "extractRecommendations (js ''## Recommendations\<newline>\<newline>- a'') =
      getDefaultRecommendations"
    by (simp add: extractRecommendations_def heading_search)
  then show ?thesis
    by (simp add: getDefaultRecommendations_def)
qed

text \<open>
  Claim C10 as amended. When the word \<open>Recommandation\<close> occurs in the raw text, in any
  mix of upper and lower case, and no line of the run of text after its line holds
  anything but white space, the extracted list is empty, and not the default list: the
  defaults stand in only when that word is absent.
\<close>

theorem heading_without_content:
  "first_heading rawText rest \<and>
   text_run (dropWhile (\<lambda>c. \<not> isLineTerminator c) rest) g \<and>
   (\<forall>l \<in> set (split_nl g). trim l = []) \<longrightarrow>
     extractRecommendations rawText = [] \<and>
     extractRecommendations rawText \<noteq> getDefaultRecommendations"
proof
  assume h: "first_heading rawText rest \<and>
   text_run (dropWhile (\<lambda>c. \<not> isLineTerminator c) rest) g \<and>
   (\<forall>l \<in> set (split_nl g). trim l = [])"
  then have "filter (\<lambda>l. trim l \<noteq> []) (split_nl g) = []"
    by (simp add: filter_empty_conv)
  with h have "extractRecommendations rawText = []"
    using extractRecommendations_heading[of rawText rest g] by simp
  then show "extractRecommendations rawText = [] \<and>
     extractRecommendations rawText \<noteq> getDefaultRecommendations"
    by (simp add: getDefaultRecommendations_def)
qed

theorem heading_without_content_witness:
  "extractRecommendations (js ''## Recommandations\<newline>\<newline>- a\<newline>- b'') = [] \<and>
   extractRecommendations (js ''ok. Recommandations:'') = []"
proof -
  let ?s = "js ''## Recommandations\<newline>\<newline>- a\<newline>- b''"
  let ?rest = "js ''s\<newline>\<newline>- a\<newline>- b''"
  have "regex_search word_at ?s = Some ?rest"
    by (simp add: word_at_def heading_word_def canonicalize_def js_def)
  then have h: "first_heading ?s ?rest"
    by (simp add: first_heading_iff)
  have "lazy_until_blank (dropWhile (\<lambda>c. \<not> isLineTerminator c) ?rest) = []"
    by (simp add: isLineTerminator_def js_def)
  then have r: "text_run (dropWhile (\<lambda>c. \<not> isLineTerminator c) ?rest) []"
    by (simp add: text_run_iff)
  have e: "\<forall>l \<in> set (split_nl []). trim l = []"
    by (simp add: trim_def)
  have "regex_search word_at (js ''ok. Recommandations:'') = Some (js ''s:'')"
    by (simp add: word_at_def heading_word_def canonicalize_def js_def)
  then have h2: "first_heading (js ''ok. Recommandations:'') (js ''s:'')"
    by (simp add: first_heading_iff)
  have "lazy_until_blank (dropWhile (\<lambda>c. \<not> isLineTerminator c) (js ''s:'')) = []"
    by (simp add: isLineTerminator_def js_def)
  then have r2: "text_run (dropWhile (\<lambda>c. \<not> isLineTerminator c) (js ''s:'')) []"
    by (simp add: text_run_iff)
  from heading_without_content[of ?s ?rest "[]"] h r e
  have 1: "extractRecommendations ?s = []" by blast
  from heading_without_content[of "js ''ok. Recommandations:''" "js ''s:''" "[]"] h2 r2 e
  have 2: "extractRecommendations (js ''ok. Recommandations:'') = []" by blast
  from 1 2 show ?thesis ..
qed

section \<open>The repository metadata\<close>

lemma tenths_of_1024_nearest:
  "1024 * tenths_of_1024 n \<le> 10 * n + 512 \<and> 10 * n + 512 < 1024 * tenths_of_1024 n + 1024"
  unfolding tenths_of_1024_def by (simp add: div_mult2_eq) linarith

text \<open>
  Claim C9 says that the size is converted from bytes to KiB. \<open>formatRepoData\<close>
  divides the size by 1024, prints it with one decimal and appends the unit \<open>MB\<close>:
  the field is a text in megabytes, here \<open>2.0 MB\<close> for the size 2048.
\<close>

theorem size_is_labelled_MB_counterexample:
  "size_text (formatRepoData id sample_repo) = js ''2.0 MB'' \<and>
   size_text (formatRepoData id sample_repo) \<noteq> js ''2.0 KiB''"
  by (simp add: formatRepoData_def sample_repo_def toFixed1_div_1024_def tenths_of_1024_def
      show_nat.simps js_def)

text \<open>
  Claim C9 as amended. For a repository object whose size is an integer below
  \<open>2^53\<close>, \<open>getRepoInfo\<close> returns the object of \<open>formatRepoData\<close>, in which the
  size is the text of the number of tenths nearest to size / 1024 (the larger one on a
  tie), written with one decimal and followed by \<open>MB\<close>; the license is absent when
  the license object is absent and its \<open>spdx_id\<close> otherwise; the topics are the empty
  list when absent and unchanged otherwise; and the two dates are what the host's
  \<open>toLocaleDateString\<close> makes of them.
\<close>

theorem formatRepoData_normalizes:
  "data_size d < 2 ^ 53 \<longrightarrow>
     getRepoInfo toLocaleDateString (GitHub_data d) = Inr (formatRepoData toLocaleDateString d) \<and>
     (\<exists>t. size_text (formatRepoData toLocaleDateString d) =
            show_nat (t div 10) @ js ''.'' @ show_nat (t mod 10) @ js '' MB'' \<and>
          1024 * t \<le> 10 * data_size d + 512 \<and> 10 * data_size d + 512 < 1024 * t + 1024) \<and>
     (data_license d = None \<longrightarrow> license (formatRepoData toLocaleDateString d) = None) \<and>
     (data_license d = Some l \<longrightarrow> license (formatRepoData toLocaleDateString d) = l) \<and>
     (data_topics d = None \<longrightarrow> topics (formatRepoData toLocaleDateString d) = []) \<and>
     (data_topics d = Some ts \<longrightarrow> topics (formatRepoData toLocaleDateString d) = ts) \<and>
     createdAt (formatRepoData toLocaleDateString d) = toLocaleDateString (data_created_at d) \<and>
     updatedAt (formatRepoData toLocaleDateString d) = toLocaleDateString (data_updated_at d)"
proof (intro impI conjI)
  show "getRepoInfo toLocaleDateString (GitHub_data d) = Inr (formatRepoData toLocaleDateString d)"
    by (simp add: getRepoInfo_def)
  have "size_text (formatRepoData toLocaleDateString d) =
      show_nat (tenths_of_1024 (data_size d) div 10) @ js ''.'' @
      show_nat (tenths_of_1024 (data_size d) mod 10) @ js '' MB''"
    by (simp add: formatRepoData_def toFixed1_div_1024_def)
  with tenths_of_1024_nearest[of "data_size d"]
  show "\<exists>t. size_text (formatRepoData toLocaleDateString d) =
            show_nat (t div 10) @ js ''.'' @ show_nat (t mod 10) @ js '' MB'' \<and>
          1024 * t \<le> 10 * data_size d + 512 \<and> 10 * data_size d + 512 < 1024 * t + 1024"
    by blast
qed (simp_all add: formatRepoData_def)

theorem formatRepoData_normalizes_witness:
  "size_text (formatRepoData id sample_repo) = js ''2.0 MB'' \<and>
   license (formatRepoData id sample_repo) = None \<and>
   topics (formatRepoData id sample_repo) = [] \<and>
   createdAt (formatRepoData id sample_repo) = js ''2020-01-01T00:00:00Z''"
proof -
  have b: "data_size sample_repo < 2 ^ 53"
    and l: "data_license sample_repo = None"
    and t: "data_topics sample_repo = None"
    and c: "data_created_at sample_repo = js ''2020-01-01T00:00:00Z''"
    and n: "data_size sample_repo = 2048"
    by (simp_all add: sample_repo_def)
  note f = formatRepoData_normalizes[where d = sample_repo and toLocaleDateString = id]
  from f b obtain k where k: "size_text (formatRepoData id sample_repo) =
            show_nat (k div 10) @ js ''.'' @ show_nat (k mod 10) @ js '' MB''"
    "1024 * k \<le> 10 * data_size sample_repo + 512"
    "10 * data_size sample_repo + 512 < 1024 * k + 1024"
    by blast
  from k(2,3) have "k = 20" unfolding n by simp
  with k(1) have 1: "size_text (formatRepoData id sample_repo) = js ''2.0 MB''"
    by (simp add: show_nat.simps js_def)
  from f b l have 2: "license (formatRepoData id sample_repo) = None" by blast
  from f b t have 3: "topics (formatRepoData id sample_repo) = []" by blast
  from f b c have 4: "createdAt (formatRepoData id sample_repo) = js ''2020-01-01T00:00:00Z''"
    by simp
  from 1 2 3 4 show ?thesis by blast
qed

end
